theory Spec2Isabelle
  imports Main "HOL-Library.Word"
begin

unbundle bit_operations_syntax

section \<open>Data model\<close>

text \<open>
  The file \<^verbatim>\<open>source/c/jhdf5/strcpyJHDF5.c\<close> holds three JNI entry points that keep
  the address of a heap-allocated C string inside a Java byte array:
  \<^verbatim>\<open>compoundCpyVLStr\<close> (encode), \<^verbatim>\<open>createVLStrFromCompound\<close> (decode) and
  \<^verbatim>\<open>freeCompoundVLStr\<close> (release all).

  Bytes are 8-bit words, the code units of a Java string are 16-bit words and a native
  address is a 64-bit word stored least significant byte first (an LP64 little-endian
  platform, where \<^verbatim>\<open>sizeof(void *)\<close> is 8); \<^verbatim>\<open>NULL\<close> is the address 0. A \<^verbatim>\<open>jint\<close> that
  is only used as an offset or a size is an \<open>int\<close>: the code does no arithmetic on it
  that could wrap around before it leaves the array it indexes.
\<close>

type_synonym byte = "8 word"
type_synonym jchar = "16 word"
type_synonym jstring = "jchar list"
type_synonym address = "64 word"

definition getPointerSize :: nat where
  "getPointerSize = 8"

text \<open>The two Java arrays an entry point can receive, named after the C parameters.\<close>

datatype jarray = Buf | VlIndices

text \<open>
  Undefined behaviour of the C code is a value: an access outside the pinned Java array,
  an access through an address that is not the start of a live block (or past the block's
  end), and \<^verbatim>\<open>free\<close> of an address that is neither \<^verbatim>\<open>NULL\<close> nor a live block.
\<close>

datatype fault = ArrayOutOfBounds | BadPointer | InvalidFree

datatype jexception = StringIndexOutOfBoundsException | OutOfMemoryError

text \<open>What a call does that its return value does not show, in the order it happens.\<close>

datatype event =
    H5NullArgument string
  | H5JNIFatalError string
  | Throw jexception
  | Calloc nat address
  | GetCritical jarray bool
  | ReleaseCritical jarray
  | Free address

text \<open>
  The native side of the process: the live blocks of the C heap (start address to
  contents), the arrays currently held by \<^verbatim>\<open>GetPrimitiveArrayCritical\<close>, and the events
  so far.
\<close>

record jni_state =
  heap :: "address \<Rightarrow> byte list option"
  pinned :: "jarray list"
  trace :: "event list"

text \<open>
  What the environment decides during one call: the address \<^verbatim>\<open>calloc\<close> returns (0 when
  it fails), whether \<^verbatim>\<open>GetPrimitiveArrayCritical\<close> hands out each array, and whether
  \<^verbatim>\<open>NewStringUTF\<close> can build its string.
\<close>

record jni_env =
  calloc_result :: address
  pin_ok :: "jarray \<Rightarrow> bool"
  new_string_ok :: bool

section \<open>Modified UTF-8\<close>

text \<open>
  The JNI string functions use modified UTF-8: the code units 1..0x7F take one byte, 0 and
  0x80..0x7FF two bytes, everything else three bytes.
\<close>

definition utf8_char :: "jchar \<Rightarrow> byte list" where
  "utf8_char c =
     (if c \<noteq> 0 \<and> c \<le> 0x7F then [ucast c]
      else if c \<le> 0x7FF then [0xC0 OR ucast (drop_bit 6 c), 0x80 OR ucast (c AND 0x3F)]
      else [0xE0 OR ucast (drop_bit 12 c), 0x80 OR ucast (drop_bit 6 c AND 0x3F),
            0x80 OR ucast (c AND 0x3F)])"

definition utf8_encode :: "jstring \<Rightarrow> byte list" where
  "utf8_encode s = concat (map utf8_char s)"

text \<open>
  Decoding as the JVM does it: a well-formed two- or three-byte sequence gives one code
  unit, any other byte stands for itself.
\<close>

fun utf8_decode :: "byte list \<Rightarrow> jstring" where
  "utf8_decode [] = []"
| "utf8_decode [b] = [ucast b]"
| "utf8_decode [b, b2] =
     (if b AND 0xE0 = 0xC0 \<and> b2 AND 0xC0 = 0x80
      then [push_bit 6 (ucast (b AND 0x1F)) OR ucast (b2 AND 0x3F)]
      else ucast b # utf8_decode [b2])"
| "utf8_decode (b # b2 # b3 # bs) =
     (if b AND 0xE0 = 0xC0 \<and> b2 AND 0xC0 = 0x80
      then (push_bit 6 (ucast (b AND 0x1F)) OR ucast (b2 AND 0x3F)) # utf8_decode (b3 # bs)
      else if b AND 0xF0 = 0xE0 \<and> b2 AND 0xC0 = 0x80 \<and> b3 AND 0xC0 = 0x80
      then (push_bit 12 (ucast (b AND 0x0F)) OR push_bit 6 (ucast (b2 AND 0x3F))
              OR ucast (b3 AND 0x3F)) # utf8_decode bs
      else ucast b # utf8_decode (b2 # b3 # bs))"

section \<open>The JNI and C library functions the code calls\<close>

text \<open>
  The JNI functions are modelled after the JNI specification, \<^verbatim>\<open>calloc\<close> and \<^verbatim>\<open>free\<close>
  after the C standard. A block of the C heap is addressed by its start only, which is
  all the code does with one. An exception thrown by a JNI function stays pending and
  does not stop the native code: the calls after it go on. The alignment of a slot in
  the array is not modelled.
\<close>

definition log_event :: "event \<Rightarrow> jni_state \<Rightarrow> jni_state" where
  "log_event e st = st\<lparr>trace := trace st @ [e]\<rparr>"

text \<open>
  Modelled from the spec: \<^verbatim>\<open>h5nullArgument\<close> and \<^verbatim>\<open>h5JNIFatalError\<close> are declared
  \<^verbatim>\<open>extern\<close> in the file and defined elsewhere in the repository. The spec calls them
  the "absent argument" and the "fatal native error" callbacks, which report the failure
  to the managed side; here each records its report, with the message it was given.
\<close>

definition h5nullArgument :: "string \<Rightarrow> jni_state \<Rightarrow> jni_state" where
  "h5nullArgument functName st = log_event (H5NullArgument functName) st"

definition h5JNIFatalError :: "string \<Rightarrow> jni_state \<Rightarrow> jni_state" where
  "h5JNIFatalError functName st = log_event (H5JNIFatalError functName) st"

text \<open>\<^verbatim>\<open>GetStringUTFLength\<close>: the number of bytes of the string in modified UTF-8.\<close>

definition GetStringUTFLength :: "jstring \<Rightarrow> nat" where
  "GetStringUTFLength s = length (utf8_encode s)"

text \<open>
  \<^verbatim>\<open>calloc(1, n)\<close>: \<^verbatim>\<open>NULL\<close>, or a block of \<open>n\<close> zero bytes at the address the
  allocator chose.
\<close>

definition calloc :: "jni_env \<Rightarrow> nat \<Rightarrow> jni_state \<Rightarrow> address \<times> jni_state" where
  "calloc env n st =
     (let a = calloc_result env;
          st' = (if a = 0 then st else st\<lparr>heap := (heap st)(a \<mapsto> replicate n 0)\<rparr>)
      in (a, log_event (Calloc n a) st'))"

text \<open>Writing \<open>bs\<close> to native memory at \<open>p\<close>; writing nothing touches nothing.\<close>

definition poke :: "address \<Rightarrow> byte list \<Rightarrow> jni_state \<Rightarrow> fault + jni_state" where
  "poke p bs st =
     (if bs = [] then Inr st
      else if p = 0 then Inl BadPointer
      else (case heap st p of
              None \<Rightarrow> Inl BadPointer
            | Some blk \<Rightarrow>
                if length bs \<le> length blk
                then Inr (st\<lparr>heap := (heap st)(p \<mapsto> bs @ drop (length bs) blk)\<rparr>)
                else Inl BadPointer))"

text \<open>
  \<^verbatim>\<open>GetStringUTFRegion(env, str, start, len, buf)\<close> translates \<open>len\<close> code units of the
  string, from \<open>start\<close> on, into modified UTF-8 and places the bytes at \<open>buf\<close>; it throws
  \<^verbatim>\<open>StringIndexOutOfBoundsException\<close>, and copies nothing, when the string has no
  \<open>len\<close> code units from \<open>start\<close> on. The JNI specification does not require it to
  terminate the copy with a zero byte, and the model writes none.
\<close>

definition GetStringUTFRegion ::
  "jstring \<Rightarrow> nat \<Rightarrow> nat \<Rightarrow> address \<Rightarrow> jni_state \<Rightarrow> fault + jni_state" where
  "GetStringUTFRegion s start len buf st =
     (if length s < start + len then Inr (log_event (Throw StringIndexOutOfBoundsException) st)
      else poke buf (utf8_encode (take len (drop start s))) st)"

definition GetPrimitiveArrayCritical :: "jni_env \<Rightarrow> jarray \<Rightarrow> jni_state \<Rightarrow> bool \<times> jni_state" where
  "GetPrimitiveArrayCritical env a st =
     (if pin_ok env a
      then (True, log_event (GetCritical a True) (st\<lparr>pinned := a # pinned st\<rparr>))
      else (False, log_event (GetCritical a False) st))"

definition ReleasePrimitiveArrayCritical :: "jarray \<Rightarrow> jni_state \<Rightarrow> jni_state" where
  "ReleasePrimitiveArrayCritical a st =
     log_event (ReleaseCritical a) (st\<lparr>pinned := remove1 a (pinned st)\<rparr>)"

text \<open>An address in the byte array: eight bytes, least significant first.\<close>

definition ptr_bytes :: "address \<Rightarrow> byte list" where
  "ptr_bytes p = map (\<lambda>i. ucast (drop_bit (8 * i) p)) [0..<8]"

definition bytes_ptr :: "byte list \<Rightarrow> address" where
  "bytes_ptr bs = foldr (\<lambda>b acc. ucast b OR push_bit 8 acc) bs 0"

text \<open>
  A slot is the eight bytes of the pinned array \<open>b\<close> from offset \<open>ofs\<close> on. An access
  to it is inside the array when \<open>slot_ok b ofs\<close> holds; \<open>slot_at b ofs\<close> is the
  address those bytes hold.
\<close>

definition slot_ok :: "byte list \<Rightarrow> int \<Rightarrow> bool" where
  "slot_ok b ofs = (0 \<le> ofs \<and> nat ofs + getPointerSize \<le> length b)"

definition slot_at :: "byte list \<Rightarrow> int \<Rightarrow> address" where
  "slot_at b ofs = bytes_ptr (take getPointerSize (drop (nat ofs) b))"

text \<open>
  \<^verbatim>\<open>*((char**)(byteP + ofs)) = p\<close> and \<^verbatim>\<open>*((char**)(byteP + ofs))\<close>, on the pinned
  array \<open>b\<close>.
\<close>

definition store_ptr :: "byte list \<Rightarrow> int \<Rightarrow> address \<Rightarrow> fault + byte list" where
  "store_ptr b ofs p =
     (if slot_ok b ofs
      then Inr (take (nat ofs) b @ ptr_bytes p @ drop (nat ofs + getPointerSize) b)
      else Inl ArrayOutOfBounds)"

definition load_ptr :: "byte list \<Rightarrow> int \<Rightarrow> fault + address" where
  "load_ptr b ofs = (if slot_ok b ofs then Inr (slot_at b ofs) else Inl ArrayOutOfBounds)"

text \<open>
  \<^verbatim>\<open>NewStringUTF(env, p)\<close> reads the bytes at \<open>p\<close> up to the first zero byte and
  decodes them; it returns \<^verbatim>\<open>NULL\<close> for \<^verbatim>\<open>NULL\<close> and when the string cannot be built.
\<close>

definition NewStringUTF ::
  "jni_env \<Rightarrow> address \<Rightarrow> jni_state \<Rightarrow> fault + (jni_state \<times> jstring option)" where
  "NewStringUTF env p st =
     (if p = 0 then Inr (st, None)
      else (case heap st p of
              None \<Rightarrow> Inl BadPointer
            | Some blk \<Rightarrow>
                if 0 \<in> set blk
                then (if new_string_ok env
                      then Inr (st, Some (utf8_decode (takeWhile (\<lambda>b. b \<noteq> 0) blk)))
                      else Inr (log_event (Throw OutOfMemoryError) st, None))
                else Inl BadPointer))"

text \<open>\<^verbatim>\<open>free(p)\<close>.\<close>

definition free :: "address \<Rightarrow> jni_state \<Rightarrow> fault + jni_state" where
  "free p st =
     (if p = 0 then Inr (log_event (Free p) st)
      else (case heap st p of
              None \<Rightarrow> Inl InvalidFree
            | Some blk \<Rightarrow> Inr (log_event (Free p) (st\<lparr>heap := (heap st)(p := None)\<rparr>))))"

section \<open>The three entry points\<close>

text \<open>
  \<^verbatim>\<open>compoundCpyVLStr(str, buf, bufOfs)\<close>. The result is a fault, or the state after
  the call, the contents of \<open>buf\<close> after the call and the returned status.
\<close>

definition compoundCpyVLStr ::
  "jni_env \<Rightarrow> jni_state \<Rightarrow> jstring option \<Rightarrow> byte list option \<Rightarrow> int
     \<Rightarrow> fault + (jni_state \<times> byte list option \<times> int)" where
  "compoundCpyVLStr env st str buf bufOfs =
     (case str of
        None \<Rightarrow> Inr (h5nullArgument ''compoundCpyVLStr:  str is NULL'' st, buf, - 1)
      | Some s \<Rightarrow>
     (case buf of
        None \<Rightarrow> Inr (h5nullArgument ''compoundCpyVLStr:  buf is NULL'' st, buf, - 1)
      | Some b \<Rightarrow>
          let len = GetStringUTFLength s;
              (strPCpy, st1) = calloc env len st
          in (case GetStringUTFRegion s 0 len strPCpy st1 of
                Inl f \<Rightarrow> Inl f
              | Inr st2 \<Rightarrow>
                  (case GetPrimitiveArrayCritical env Buf st2 of
                     (False, st3) \<Rightarrow>
                        Inr (h5JNIFatalError ''compoundCpyVLStr:  buf not pinned'' st3, buf, - 1)
                   | (True, st3) \<Rightarrow>
                        (case store_ptr b bufOfs strPCpy of
                           Inl f \<Rightarrow> Inl f
                         | Inr b' \<Rightarrow>
                             Inr (ReleasePrimitiveArrayCritical Buf st3, Some b', 0))))))"

text \<open>
  \<^verbatim>\<open>createVLStrFromCompound(buf, offset)\<close>. The result is a fault, or the state after
  the call and the returned string (\<open>None\<close> for \<^verbatim>\<open>NULL\<close>).
\<close>

definition createVLStrFromCompound ::
  "jni_env \<Rightarrow> jni_state \<Rightarrow> byte list option \<Rightarrow> int \<Rightarrow> fault + (jni_state \<times> jstring option)" where
  "createVLStrFromCompound env st buf offset =
     (case buf of
        None \<Rightarrow> Inr (h5nullArgument ''createVLStrFromCompound:  buf is NULL'' st, None)
      | Some b \<Rightarrow>
          (case GetPrimitiveArrayCritical env Buf st of
             (False, st1) \<Rightarrow>
                Inr (h5JNIFatalError ''createVLStrFromCompound:  buf not pinned'' st1, None)
           | (True, st1) \<Rightarrow>
                (case load_ptr b offset of
                   Inl f \<Rightarrow> Inl f
                 | Inr strP \<Rightarrow>
                     (case NewStringUTF env strP st1 of
                        Inl f \<Rightarrow> Inl f
                      | Inr (st2, str) \<Rightarrow> Inr (ReleasePrimitiveArrayCritical Buf st2, str)))))"

text \<open>
  The \<^verbatim>\<open>for\<close> loop of \<^verbatim>\<open>freeCompoundVLStr\<close>: for each index in turn, the address in
  the slot at \<open>ptr + idxP[i]\<close> is read and freed. \<open>ptr\<close> is the offset
  \<^verbatim>\<open>ptr - byteP\<close> of the record in the array.
\<close>

fun free_slots :: "byte list \<Rightarrow> int \<Rightarrow> int list \<Rightarrow> jni_state \<Rightarrow> fault + jni_state" where
  "free_slots b ptr [] st = Inr st"
| "free_slots b ptr (idx # idxP) st =
     (case load_ptr b (ptr + idx) of
        Inl f \<Rightarrow> Inl f
      | Inr strP \<Rightarrow>
          (case free strP st of
             Inl f \<Rightarrow> Inl f
           | Inr st' \<Rightarrow> free_slots b ptr idxP st'))"

text \<open>
  The \<^verbatim>\<open>while (ptr - byteP < bufLen)\<close> loop. Nothing in the C code bounds the number of
  iterations when \<open>recordSize\<close> is not positive, so the loop is a partial function:
  \<open>None\<close> is a loop that never ends.
\<close>

partial_function (option) free_records ::
  "byte list \<Rightarrow> int \<Rightarrow> int list \<Rightarrow> int \<Rightarrow> jni_state \<Rightarrow> (fault + jni_state) option" where
  "free_records b recordSize idxP ptr st =
     (if ptr < int (length b)
      then (case free_slots b ptr idxP st of
              Inl f \<Rightarrow> Some (Inl f)
            | Inr st' \<Rightarrow> free_records b recordSize idxP (ptr + recordSize) st')
      else Some (Inr st))"

text \<open>
  \<^verbatim>\<open>freeCompoundVLStr(buf, recordSize, vlIndices)\<close>. The result is \<open>None\<close> when the
  call never returns, a fault, or the state after the call and the returned status. The
  code writes to neither array.
\<close>

definition freeCompoundVLStr ::
  "jni_env \<Rightarrow> jni_state \<Rightarrow> byte list option \<Rightarrow> int \<Rightarrow> int list option
     \<Rightarrow> (fault + (jni_state \<times> int)) option" where
  "freeCompoundVLStr env st buf recordSize vlIndices =
     (case buf of
        None \<Rightarrow> Some (Inr (h5nullArgument ''freeCompoundVLStr:  buf is NULL'' st, - 1))
      | Some b \<Rightarrow>
     (case vlIndices of
        None \<Rightarrow> Some (Inr (h5nullArgument ''freeCompoundVLStr:  vlIndices is NULL'' st, - 1))
      | Some idxP \<Rightarrow>
          (case GetPrimitiveArrayCritical env VlIndices st of
             (False, st1) \<Rightarrow>
                Some (Inr (h5JNIFatalError ''freeCompoundVLStr:  vlIndices not pinned'' st1, - 1))
           | (True, st1) \<Rightarrow>
                (case GetPrimitiveArrayCritical env Buf st1 of
                   (False, st2) \<Rightarrow>
                      Some (Inr (h5JNIFatalError ''freeCompoundVLStr:  buf not pinned''
                                   (ReleasePrimitiveArrayCritical VlIndices st2), - 1))
                 | (True, st2) \<Rightarrow>
                      (case free_records b recordSize idxP 0 st2 of
                         None \<Rightarrow> None
                       | Some (Inl f) \<Rightarrow> Some (Inl f)
                       | Some (Inr st3) \<Rightarrow>
                           Some (Inr (ReleasePrimitiveArrayCritical Buf
                                        (ReleasePrimitiveArrayCritical VlIndices st3), 0)))))))"

section \<open>Auxiliary notions for the statements\<close>

text \<open>
  The \<^verbatim>\<open>while\<close> loop of \<^verbatim>\<open>freeCompoundVLStr\<close> once more, cut off after \<open>n\<close>
  iterations: \<open>None\<close> when the loop would go on. It serves to count iterations.
\<close>

fun free_records_bounded ::
  "nat \<Rightarrow> byte list \<Rightarrow> int \<Rightarrow> int list \<Rightarrow> int \<Rightarrow> jni_state \<Rightarrow> (fault + jni_state) option" where
  "free_records_bounded 0 b recordSize idxP ptr st =
     (if ptr < int (length b) then None else Some (Inr st))"
| "free_records_bounded (Suc n) b recordSize idxP ptr st =
     (if ptr < int (length b)
      then (case free_slots b ptr idxP st of
              Inl f \<Rightarrow> Some (Inl f)
            | Inr st' \<Rightarrow> free_records_bounded n b recordSize idxP (ptr + recordSize) st')
      else Some (Inr st))"

text \<open>The addresses passed to \<^verbatim>\<open>free\<close>, in the order of the calls.\<close>

fun frees :: "event list \<Rightarrow> address list" where
  "frees [] = []"
| "frees (Free p # es) = p # frees es"
| "frees (e # es) = frees es"

text \<open>The arrays that \<^verbatim>\<open>GetPrimitiveArrayCritical\<close> was called on.\<close>

fun pin_attempts :: "event list \<Rightarrow> jarray list" where
  "pin_attempts [] = []"
| "pin_attempts (GetCritical a ok # es) = a # pin_attempts es"
| "pin_attempts (e # es) = pin_attempts es"

text \<open>The state after the live blocks \<open>ps\<close> have been freed one by one.\<close>

definition released :: "address list \<Rightarrow> jni_state \<Rightarrow> jni_state" where
  "released ps st =
     st\<lparr>heap := (\<lambda>a. if a \<in> set ps then None else heap st a),
        trace := trace st @ map Free ps\<rparr>"

text \<open>
  The same when some of the addresses \<open>ps\<close> may be null: \<^verbatim>\<open>free(NULL)\<close> is called and
  releases nothing.
\<close>

definition released_nonnull :: "address list \<Rightarrow> jni_state \<Rightarrow> jni_state" where
  "released_nonnull ps st =
     st\<lparr>heap := (\<lambda>a. if a \<in> set ps \<and> a \<noteq> 0 then None else heap st a),
        trace := trace st @ map Free ps\<rparr>"

text \<open>Code units that modified UTF-8 writes as a single byte.\<close>

definition one_byte :: "jchar \<Rightarrow> bool" where
  "one_byte c = (c \<noteq> 0 \<and> c \<le> 0x7F)"

subsection \<open>Concrete inputs\<close>

definition every_pin :: "jarray \<Rightarrow> bool" where
  "every_pin a = True"

definition no_pin :: "jarray \<Rightarrow> bool" where
  "no_pin a = False"

definition env_at :: "address \<Rightarrow> jni_env" where
  "env_at a = \<lparr>calloc_result = a, pin_ok = every_pin, new_string_ok = True\<rparr>"

definition env_unpinned :: "address \<Rightarrow> jni_env" where
  "env_unpinned a = \<lparr>calloc_result = a, pin_ok = no_pin, new_string_ok = True\<rparr>"

definition fresh_state :: jni_state where
  "fresh_state = \<lparr>heap = Map.empty, pinned = [], trace = []\<rparr>"

text \<open>
  The text "hello" with an acute accent on the e (the code unit 0xE9): five code units,
  six bytes in modified UTF-8.
\<close>

definition hello :: jstring where
  "hello = [0x68, 0xE9, 0x6C, 0x6C, 0x6F]"

definition zeros8 :: "byte list" where
  "zeros8 = [0, 0, 0, 0, 0, 0, 0, 0]"

text \<open>
  Twenty bytes cut into records of twelve: a full record with the address 0x1000 in its
  slot at offset 0, and a tail of eight bytes holding the address 0x2000.
\<close>

definition tail_buf :: "byte list" where
  "tail_buf = [0x00, 0x10, 0, 0, 0, 0, 0, 0,  0, 0, 0, 0,
               0x00, 0x20, 0, 0, 0, 0, 0, 0]"

text \<open>
  Twenty-four bytes, three records of eight, each holding the address of a block of its
  own: 0x1000, 0x2000 and 0x3000.
\<close>

definition three_buf :: "byte list" where
  "three_buf = [0x00, 0x10, 0, 0, 0, 0, 0, 0,
                0x00, 0x20, 0, 0, 0, 0, 0, 0,
                0x00, 0x30, 0, 0, 0, 0, 0, 0]"

definition three_blocks :: jni_state where
  "three_blocks =
     \<lparr>heap = [0x1000 \<mapsto> [0x61, 0], 0x2000 \<mapsto> [0x62, 0], 0x3000 \<mapsto> [0x63, 0]],
      pinned = [], trace = []\<rparr>"

text \<open>The state, and the slot, after encoding \<open>hello\<close> into \<open>zeros8\<close> at offset 0.\<close>

definition hello_encoded :: jni_state where
  "hello_encoded =
     \<lparr>heap = [0x1000 \<mapsto> [0, 0, 0, 0, 0, 0]], pinned = [],
      trace = [Calloc 6 0x1000, Throw StringIndexOutOfBoundsException,
               GetCritical Buf True, ReleaseCritical Buf]\<rparr>"

definition hello_slot :: "byte list" where
  "hello_slot = [0x00, 0x10, 0, 0, 0, 0, 0, 0]"

definition hello_decoded :: jni_state where
  "hello_decoded =
     \<lparr>heap = [0x1000 \<mapsto> [0, 0, 0, 0, 0, 0]], pinned = [],
      trace = [Calloc 6 0x1000, Throw StringIndexOutOfBoundsException,
               GetCritical Buf True, ReleaseCritical Buf,
               GetCritical Buf True, ReleaseCritical Buf]\<rparr>"

text \<open>
  The text "hi", and the state and the array after encoding it into the second record of
  \<open>three_buf\<close>, with the new block at 0x4000.
\<close>

definition hi :: jstring where
  "hi = [0x68, 0x69]"

definition hi_encoded :: jni_state where
  "hi_encoded =
     \<lparr>heap = [0x1000 \<mapsto> [0x61, 0], 0x2000 \<mapsto> [0x62, 0], 0x3000 \<mapsto> [0x63, 0],
              0x4000 \<mapsto> [0x68, 0x69]],
      pinned = [],
      trace = [Calloc 2 0x4000, GetCritical Buf True, ReleaseCritical Buf]\<rparr>"

definition hi_buf :: "byte list" where
  "hi_buf = [0x00, 0x10, 0, 0, 0, 0, 0, 0,
             0x00, 0x40, 0, 0, 0, 0, 0, 0,
             0x00, 0x30, 0, 0, 0, 0, 0, 0]"

text \<open>The states after releasing \<open>three_buf\<close> by records of 8 and \<open>tail_buf\<close> by records of 12.\<close>

definition three_released :: jni_state where
  "three_released =
     \<lparr>heap = Map.empty, pinned = [],
      trace = [GetCritical VlIndices True, GetCritical Buf True,
               Free 0x1000, Free 0x2000, Free 0x3000,
               ReleaseCritical VlIndices, ReleaseCritical Buf]\<rparr>"

definition tail_released :: jni_state where
  "tail_released =
     \<lparr>heap = [0x3000 \<mapsto> [0x63, 0]], pinned = [],
      trace = [GetCritical VlIndices True, GetCritical Buf True,
               Free 0x1000, Free 0x2000,
               ReleaseCritical VlIndices, ReleaseCritical Buf]\<rparr>"

text \<open>
  Sixteen bytes, two records of eight: the first slot holds the null address, the second
  0x2000. And the state after releasing them from \<open>three_blocks\<close>.
\<close>

definition null_buf :: "byte list" where
  "null_buf = [0, 0, 0, 0, 0, 0, 0, 0,
               0x00, 0x20, 0, 0, 0, 0, 0, 0]"

definition null_released :: jni_state where
  "null_released =
     \<lparr>heap = [0x1000 \<mapsto> [0x61, 0], 0x3000 \<mapsto> [0x63, 0]], pinned = [],
      trace = [GetCritical VlIndices True, GetCritical Buf True,
               Free 0, Free 0x2000,
               ReleaseCritical VlIndices, ReleaseCritical Buf]\<rparr>"

text \<open>
  Thirty-two bytes, two records of sixteen with slots at the offsets 0 and 8: 0x1000 and
  0x2000 in the first record, 0x3000 and the null address in the second. And the first
  record alone.
\<close>

definition pair_buf :: "byte list" where
  "pair_buf = [0x00, 0x10, 0, 0, 0, 0, 0, 0,   0x00, 0x20, 0, 0, 0, 0, 0, 0,
               0x00, 0x30, 0, 0, 0, 0, 0, 0,   0, 0, 0, 0, 0, 0, 0, 0]"

definition pair_head :: "byte list" where
  "pair_head = [0x00, 0x10, 0, 0, 0, 0, 0, 0,   0x00, 0x20, 0, 0, 0, 0, 0, 0]"

section \<open>Facts about the called functions\<close>

lemma log_event_simps [simp]:
  "trace (log_event e st) = trace st @ [e]"
  "heap (log_event e st) = heap st"
  "pinned (log_event e st) = pinned st"
  by (simp_all add: log_event_def)

lemma report_simps [simp]:
  "trace (h5nullArgument m st) = trace st @ [H5NullArgument m]"
  "heap (h5nullArgument m st) = heap st"
  "pinned (h5nullArgument m st) = pinned st"
  "trace (h5JNIFatalError m st) = trace st @ [H5JNIFatalError m]"
  "heap (h5JNIFatalError m st) = heap st"
  "pinned (h5JNIFatalError m st) = pinned st"
  by (simp_all add: h5nullArgument_def h5JNIFatalError_def)

lemma release_simps [simp]:
  "trace (ReleasePrimitiveArrayCritical a st) = trace st @ [ReleaseCritical a]"
  "heap (ReleasePrimitiveArrayCritical a st) = heap st"
  "pinned (ReleasePrimitiveArrayCritical a st) = remove1 a (pinned st)"
  by (simp_all add: ReleasePrimitiveArrayCritical_def)

lemma pin_success:
  "pin_ok env a \<Longrightarrow> GetPrimitiveArrayCritical env a st =
     (True, log_event (GetCritical a True) (st\<lparr>pinned := a # pinned st\<rparr>))"
  by (simp add: GetPrimitiveArrayCritical_def)

lemma pin_failure:
  "\<not> pin_ok env a \<Longrightarrow> GetPrimitiveArrayCritical env a st = (False, log_event (GetCritical a False) st)"
  by (simp add: GetPrimitiveArrayCritical_def)

lemma calloc_simps [simp]:
  "fst (calloc env n st) = calloc_result env"
  "pinned (snd (calloc env n st)) = pinned st"
  "trace (snd (calloc env n st)) = trace st @ [Calloc n (calloc_result env)]"
  "heap (snd (calloc env n st)) =
     (if calloc_result env = 0 then heap st else (heap st)(calloc_result env \<mapsto> replicate n 0))"
  by (simp_all add: calloc_def Let_def)

lemma poke_pinned: "poke p bs st = Inr st' \<Longrightarrow> pinned st' = pinned st \<and> trace st' = trace st"
  by (auto simp: poke_def split: if_splits option.splits)

lemma GetStringUTFRegion_pinned:
  "GetStringUTFRegion s start len p st = Inr st' \<Longrightarrow> pinned st' = pinned st"
  by (auto simp: GetStringUTFRegion_def split: if_splits dest: poke_pinned)

lemma NewStringUTF_pinned:
  "NewStringUTF env p st = Inr (st', r) \<Longrightarrow> pinned st' = pinned st"
  by (auto simp: NewStringUTF_def split: if_splits option.splits)

lemma free_pinned: "free p st = Inr st' \<Longrightarrow> pinned st' = pinned st"
  by (auto simp: free_def split: if_splits option.splits)

lemma free_slots_pinned: "free_slots b ptr idxP st = Inr st' \<Longrightarrow> pinned st' = pinned st"
  by (induction idxP arbitrary: st) (auto split: sum.splits dest: free_pinned)

lemma free_records_pinned:
  assumes "free_records b R idxP ptr st = Some r"
  shows "\<forall>st'. r = Inr st' \<longrightarrow> pinned st' = pinned st"
  by (rule free_records.raw_induct [OF _ assms])
     (auto split: if_splits sum.splits dest: free_slots_pinned)

subsection \<open>Lengths in modified UTF-8\<close>

lemma utf8_char_length:
  "length (utf8_char c) = (if one_byte c then 1 else if c \<le> 0x7FF then 2 else 3)"
  by (simp add: utf8_char_def one_byte_def)

lemma utf8_encode_Cons: "utf8_encode (c # s) = utf8_char c @ utf8_encode s"
  by (simp add: utf8_encode_def)

lemma utf8_encode_length_ge: "length s \<le> length (utf8_encode s)"
  by (induction s) (auto simp: utf8_encode_Cons utf8_char_length utf8_encode_def)

lemma utf8_encode_length_one_byte: "list_all one_byte s \<Longrightarrow> length (utf8_encode s) = length s"
  by (induction s) (auto simp: utf8_encode_Cons utf8_char_length utf8_encode_def)

lemma utf8_encode_length_gt: "\<not> list_all one_byte s \<Longrightarrow> length s < length (utf8_encode s)"
proof (induction s)
  case Nil
  then show ?case by simp
next
  case (Cons c s)
  have "length s \<le> length (utf8_encode s)" by (rule utf8_encode_length_ge)
  with Cons show ?case
    by (cases "one_byte c") (auto simp: utf8_encode_Cons utf8_char_length)
qed

subsection \<open>Addresses in the byte array\<close>

lemma byte_step:
  fixes x :: address
  shows "ucast (ucast x :: byte) OR push_bit 8 (take_bit m (drop_bit 8 x)) = take_bit (m + 8) x"
  by (rule bit_word_eqI) (auto simp: bit_simps)

lemma bytes_ptr_Cons: "bytes_ptr (c # bs) = ucast c OR push_bit 8 (bytes_ptr bs)"
  by (simp add: bytes_ptr_def)

lemma bytes_ptr_upt:
  "j \<le> k \<Longrightarrow> bytes_ptr (map (\<lambda>i. ucast (drop_bit (8 * i) (p::address))) [j..<k])
     = take_bit (8 * (k - j)) (drop_bit (8 * j) p)"
proof (induction "k - j" arbitrary: j)
  case 0
  then show ?case by (simp add: bytes_ptr_def)
next
  case (Suc d)
  then have jk: "j < k" and d: "d = k - Suc j" by simp_all
  have "bytes_ptr (map (\<lambda>i. ucast (drop_bit (8 * i) p)) [j..<k])
      = ucast (ucast (drop_bit (8 * j) p) :: byte)
          OR push_bit 8 (bytes_ptr (map (\<lambda>i. ucast (drop_bit (8 * i) p)) [Suc j..<k]))"
    using jk by (simp add: upt_conv_Cons bytes_ptr_Cons)
  also have "bytes_ptr (map (\<lambda>i. ucast (drop_bit (8 * i) p)) [Suc j..<k])
      = take_bit (8 * (k - Suc j)) (drop_bit (8 * Suc j) p)"
    using Suc.hyps(1) [OF d] jk by simp
  also have "drop_bit (8 * Suc j) p = drop_bit 8 (drop_bit (8 * j) p)"
    by (simp add: drop_bit_drop_bit add.commute)
  also have "ucast (ucast (drop_bit (8 * j) p) :: byte)
          OR push_bit 8 (take_bit (8 * (k - Suc j)) (drop_bit 8 (drop_bit (8 * j) p)))
      = take_bit (8 * (k - Suc j) + 8) (drop_bit (8 * j) p)"
    by (rule byte_step)
  also have "8 * (k - Suc j) + 8 = 8 * (k - j)"
    using jk by simp
  finally show ?case .
qed

lemma bytes_ptr_ptr_bytes: "bytes_ptr (ptr_bytes p) = p"
  using bytes_ptr_upt [of 0 8 p] by (simp add: ptr_bytes_def take_bit_word_eq_self)

lemma length_ptr_bytes: "length (ptr_bytes p) = getPointerSize"
  by (simp add: ptr_bytes_def getPointerSize_def)

lemma store_ptr_load:
  assumes "store_ptr b ofs p = Inr b'"
  shows "load_ptr b' ofs = Inr p" "length b' = length b"
  using assms
  by (auto simp: store_ptr_def load_ptr_def slot_ok_def slot_at_def length_ptr_bytes
      bytes_ptr_ptr_bytes split: if_splits)

subsection \<open>Freeing the slots of the records\<close>

lemma released_Nil: "released [] st = st"
  by (simp add: released_def)

lemma released_append: "released qs (released ps st) = released (ps @ qs) st"
  by (auto simp: released_def fun_eq_iff)

lemma released_simps:
  "heap (released ps st) a = (if a \<in> set ps then None else heap st a)"
  "pinned (released ps st) = pinned st"
  "trace (released ps st) = trace st @ map Free ps"
  by (simp_all add: released_def)

lemma free_live:
  "p \<noteq> 0 \<Longrightarrow> heap st p \<noteq> None \<Longrightarrow> free p st = Inr (released [p] st)"
  by (auto simp: free_def released_def log_event_def fun_eq_iff)

lemma free_slots_released:
  assumes "\<forall>idx\<in>set idxP. slot_ok b (ptr + idx)"
    and "distinct (map (\<lambda>idx. slot_at b (ptr + idx)) idxP)"
    and "\<forall>idx\<in>set idxP. slot_at b (ptr + idx) \<noteq> 0 \<and> heap st (slot_at b (ptr + idx)) \<noteq> None"
  shows "free_slots b ptr idxP st = Inr (released (map (\<lambda>idx. slot_at b (ptr + idx)) idxP) st)"
  using assms
proof (induction idxP arbitrary: st)
  case Nil
  then show ?case by (simp add: released_Nil)
next
  case (Cons idx idxP)
  let ?p = "slot_at b (ptr + idx)"
  have l: "load_ptr b (ptr + idx) = Inr ?p"
    using Cons.prems(1) by (simp add: load_ptr_def)
  have f: "free ?p st = Inr (released [?p] st)"
    using Cons.prems(3) by (intro free_live) simp_all
  have "free_slots b ptr idxP (released [?p] st)
        = Inr (released (map (\<lambda>idx. slot_at b (ptr + idx)) idxP) (released [?p] st))"
  proof (intro Cons.IH)
    show "\<forall>idx\<in>set idxP. slot_ok b (ptr + idx)"
      using Cons.prems(1) by simp
    show "distinct (map (\<lambda>idx. slot_at b (ptr + idx)) idxP)"
      using Cons.prems(2) by simp
    show "\<forall>i\<in>set idxP. slot_at b (ptr + i) \<noteq> 0
            \<and> heap (released [?p] st) (slot_at b (ptr + i)) \<noteq> None"
    proof
      fix i assume i: "i \<in> set idxP"
      have "?p \<notin> set (map (\<lambda>idx. slot_at b (ptr + idx)) idxP)"
        using Cons.prems(2) by simp
      moreover have "slot_at b (ptr + i) \<in> set (map (\<lambda>idx. slot_at b (ptr + idx)) idxP)"
        using i by simp
      ultimately have "slot_at b (ptr + i) \<noteq> ?p"
        by metis
      then show "slot_at b (ptr + i) \<noteq> 0
            \<and> heap (released [?p] st) (slot_at b (ptr + i)) \<noteq> None"
        using Cons.prems(3) i by (simp add: released_simps)
    qed
  qed
  then show ?case
    by (simp add: l f released_append)
qed


lemma upt_Suc_shift: "map F [0..<Suc n] = F 0 # map (\<lambda>r. F (Suc r)) [0..<n]"
proof -
  have "[0..<Suc n] = 0 # map Suc [0..<n]"
    by (simp add: upt_conv_Cons map_Suc_upt del: upt_Suc)
  then show ?thesis by (simp add: comp_def del: upt_Suc)
qed

lemma free_records_released:
  assumes R: "0 < R"
    and stop: "int (length b) \<le> ptr + int n * R"
    and go: "\<forall>r<n. ptr + int r * R < int (length b)"
    and ok: "\<forall>r<n. \<forall>idx\<in>set idxP. slot_ok b (ptr + int r * R + idx)"
    and dist: "distinct (concat (map (\<lambda>r. map (\<lambda>idx. slot_at b (ptr + int r * R + idx)) idxP) [0..<n]))"
    and live: "\<forall>p\<in>set (concat (map (\<lambda>r. map (\<lambda>idx. slot_at b (ptr + int r * R + idx)) idxP) [0..<n])).
                 p \<noteq> 0 \<and> heap st p \<noteq> None"
  shows "free_records b R idxP ptr st =
           Some (Inr (released (concat (map (\<lambda>r. map (\<lambda>idx. slot_at b (ptr + int r * R + idx)) idxP) [0..<n])) st))"
  using stop go ok dist live
proof (induction n arbitrary: ptr st)
  case 0
  then show ?case
    by (subst free_records.simps) (simp add: released_Nil)
next
  case (Suc n)
  let ?F = "\<lambda>q r. map (\<lambda>idx. slot_at b (q + int r * R + idx)) idxP"
  let ?ps0 = "map (\<lambda>idx. slot_at b (ptr + idx)) idxP"
  let ?rest = "concat (map (?F (ptr + R)) [0..<n])"
  have shift: "\<And>r. ?F ptr (Suc r) = ?F (ptr + R) r"
    by (simp add: algebra_simps)
  have split: "concat (map (?F ptr) [0..<Suc n]) = ?ps0 @ ?rest"
    by (simp only: upt_Suc_shift [of "?F ptr"] shift) simp
  have lt: "ptr < int (length b)"
    using Suc.prems(2) by (auto dest: spec [of _ 0])
  have d: "distinct (?ps0 @ ?rest)"
    using Suc.prems(4) by (simp only: split)
  have l: "\<forall>p\<in>set (?ps0 @ ?rest). p \<noteq> 0 \<and> heap st p \<noteq> None"
    using Suc.prems(5) by (simp only: split)
  have s0: "free_slots b ptr idxP st = Inr (released ?ps0 st)"
  proof (rule free_slots_released)
    show "\<forall>idx\<in>set idxP. slot_ok b (ptr + idx)"
      using Suc.prems(3) by (auto dest: spec [of _ 0])
    show "distinct ?ps0" using d by simp
    show "\<forall>idx\<in>set idxP. slot_at b (ptr + idx) \<noteq> 0 \<and> heap st (slot_at b (ptr + idx)) \<noteq> None"
      using l by simp
  qed
  have rec: "free_records b R idxP (ptr + R) (released ?ps0 st) =
               Some (Inr (released ?rest (released ?ps0 st)))"
  proof (rule Suc.IH)
    show "int (length b) \<le> ptr + R + int n * R"
      using Suc.prems(1) by (simp add: algebra_simps)
    show "\<forall>r<n. ptr + R + int r * R < int (length b)"
    proof (intro allI impI)
      fix r assume "r < n"
      then have "ptr + int (Suc r) * R < int (length b)"
        using Suc.prems(2) by (auto simp del: of_nat_Suc)
      then show "ptr + R + int r * R < int (length b)"
        by (simp add: algebra_simps)
    qed
    show "\<forall>r<n. \<forall>idx\<in>set idxP. slot_ok b (ptr + R + int r * R + idx)"
    proof (intro allI impI ballI)
      fix r idx assume "r < n" "idx \<in> set idxP"
      then have "slot_ok b (ptr + int (Suc r) * R + idx)"
        using Suc.prems(3) by (auto simp del: of_nat_Suc)
      then show "slot_ok b (ptr + R + int r * R + idx)"
        by (simp add: algebra_simps)
    qed
    show "distinct ?rest" using d by simp
    show "\<forall>p\<in>set ?rest. p \<noteq> 0 \<and> heap (released ?ps0 st) p \<noteq> None"
    proof
      fix p assume p: "p \<in> set ?rest"
      then have "p \<notin> set ?ps0" using d by auto
      moreover have "p \<noteq> 0 \<and> heap st p \<noteq> None" using l p by simp
      ultimately show "p \<noteq> 0 \<and> heap (released ?ps0 st) p \<noteq> None"
        by (simp add: released_simps)
    qed
  qed
  show ?case
    by (subst free_records.simps) (simp only: lt s0 rec split released_append if_True sum.case)
qed

text \<open>The same loops when a slot may hold the null address.\<close>

lemma released_nonnull_Nil: "released_nonnull [] st = st"
  by (simp add: released_nonnull_def)

lemma released_nonnull_append:
  "released_nonnull qs (released_nonnull ps st) = released_nonnull (ps @ qs) st"
  by (auto simp: released_nonnull_def fun_eq_iff)

lemma released_nonnull_simps:
  "heap (released_nonnull ps st) a = (if a \<in> set ps \<and> a \<noteq> 0 then None else heap st a)"
  "pinned (released_nonnull ps st) = pinned st"
  "trace (released_nonnull ps st) = trace st @ map Free ps"
  by (simp_all add: released_nonnull_def)

lemma free_null_or_live:
  "p = 0 \<or> heap st p \<noteq> None \<Longrightarrow> free p st = Inr (released_nonnull [p] st)"
  by (auto simp: free_def released_nonnull_def log_event_def fun_eq_iff)

lemma free_slots_released_nonnull:
  assumes "\<forall>idx\<in>set idxP. slot_ok b (ptr + idx)"
    and "distinct (filter (\<lambda>p. p \<noteq> 0) (map (\<lambda>idx. slot_at b (ptr + idx)) idxP))"
    and "\<forall>p\<in>set (map (\<lambda>idx. slot_at b (ptr + idx)) idxP). p \<noteq> 0 \<longrightarrow> heap st p \<noteq> None"
  shows "free_slots b ptr idxP st
           = Inr (released_nonnull (map (\<lambda>idx. slot_at b (ptr + idx)) idxP) st)"
  using assms
proof (induction idxP arbitrary: st)
  case Nil
  then show ?case by (simp add: released_nonnull_Nil)
next
  case (Cons idx idxP)
  let ?p = "slot_at b (ptr + idx)"
  let ?qs = "map (\<lambda>idx. slot_at b (ptr + idx)) idxP"
  have l: "load_ptr b (ptr + idx) = Inr ?p"
    using Cons.prems(1) by (simp add: load_ptr_def)
  have f: "free ?p st = Inr (released_nonnull [?p] st)"
    using Cons.prems(3) by (intro free_null_or_live) auto
  have "free_slots b ptr idxP (released_nonnull [?p] st)
        = Inr (released_nonnull ?qs (released_nonnull [?p] st))"
  proof (intro Cons.IH)
    show "\<forall>idx\<in>set idxP. slot_ok b (ptr + idx)"
      using Cons.prems(1) by simp
    show "distinct (filter (\<lambda>p. p \<noteq> 0) ?qs)"
      using Cons.prems(2) by (simp split: if_splits)
    show "\<forall>q\<in>set ?qs. q \<noteq> 0 \<longrightarrow> heap (released_nonnull [?p] st) q \<noteq> None"
    proof (intro ballI impI)
      fix q assume q: "q \<in> set ?qs" and nz: "q \<noteq> 0"
      have "q \<noteq> ?p"
      proof
        assume e: "q = ?p"
        then have "?p \<noteq> 0" using nz by simp
        then have "?p \<notin> set (filter (\<lambda>p. p \<noteq> 0) ?qs)"
          using Cons.prems(2) by simp
        moreover have "q \<in> set (filter (\<lambda>p. p \<noteq> 0) ?qs)"
          using q nz by simp
        ultimately show False using e by metis
      qed
      moreover have "q \<in> set (map (\<lambda>idx. slot_at b (ptr + idx)) (idx # idxP))"
        using q by simp
      then have "heap st q \<noteq> None"
        using Cons.prems(3) nz by blast
      ultimately show "heap (released_nonnull [?p] st) q \<noteq> None"
        by (simp add: released_nonnull_simps)
    qed
  qed
  then show ?case
    by (simp add: l f released_nonnull_append)
qed

lemma free_records_released_nonnull:
  assumes R: "0 < R"
    and stop: "int (length b) \<le> ptr + int n * R"
    and go: "\<forall>r<n. ptr + int r * R < int (length b)"
    and ok: "\<forall>r<n. \<forall>idx\<in>set idxP. slot_ok b (ptr + int r * R + idx)"
    and dist: "distinct (filter (\<lambda>p. p \<noteq> 0)
                 (concat (map (\<lambda>r. map (\<lambda>idx. slot_at b (ptr + int r * R + idx)) idxP) [0..<n])))"
    and live: "\<forall>p\<in>set (concat (map (\<lambda>r. map (\<lambda>idx. slot_at b (ptr + int r * R + idx)) idxP) [0..<n])).
                 p \<noteq> 0 \<longrightarrow> heap st p \<noteq> None"
  shows "free_records b R idxP ptr st =
           Some (Inr (released_nonnull
             (concat (map (\<lambda>r. map (\<lambda>idx. slot_at b (ptr + int r * R + idx)) idxP) [0..<n])) st))"
  using stop go ok dist live
proof (induction n arbitrary: ptr st)
  case 0
  then show ?case
    by (subst free_records.simps) (simp add: released_nonnull_Nil)
next
  case (Suc n)
  let ?F = "\<lambda>q r. map (\<lambda>idx. slot_at b (q + int r * R + idx)) idxP"
  let ?ps0 = "map (\<lambda>idx. slot_at b (ptr + idx)) idxP"
  let ?rest = "concat (map (?F (ptr + R)) [0..<n])"
  have shift: "\<And>r. ?F ptr (Suc r) = ?F (ptr + R) r"
    by (simp add: algebra_simps)
  have split: "concat (map (?F ptr) [0..<Suc n]) = ?ps0 @ ?rest"
    by (simp only: upt_Suc_shift [of "?F ptr"] shift) simp
  have lt: "ptr < int (length b)"
    using Suc.prems(2) by (auto dest: spec [of _ 0])
  have d: "distinct (filter (\<lambda>p. p \<noteq> 0) (?ps0 @ ?rest))"
    using Suc.prems(4) by (simp only: split)
  have l: "\<forall>p\<in>set (?ps0 @ ?rest). p \<noteq> 0 \<longrightarrow> heap st p \<noteq> None"
    using Suc.prems(5) by (simp only: split)
  have s0: "free_slots b ptr idxP st = Inr (released_nonnull ?ps0 st)"
  proof (rule free_slots_released_nonnull)
    show "\<forall>idx\<in>set idxP. slot_ok b (ptr + idx)"
      using Suc.prems(3) by (auto dest: spec [of _ 0])
    show "distinct (filter (\<lambda>p. p \<noteq> 0) ?ps0)" using d by simp
    show "\<forall>p\<in>set ?ps0. p \<noteq> 0 \<longrightarrow> heap st p \<noteq> None"
      using l by simp
  qed
  have rec: "free_records b R idxP (ptr + R) (released_nonnull ?ps0 st) =
               Some (Inr (released_nonnull ?rest (released_nonnull ?ps0 st)))"
  proof (rule Suc.IH)
    show "int (length b) \<le> ptr + R + int n * R"
      using Suc.prems(1) by (simp add: algebra_simps)
    show "\<forall>r<n. ptr + R + int r * R < int (length b)"
    proof (intro allI impI)
      fix r assume "r < n"
      then have "ptr + int (Suc r) * R < int (length b)"
        using Suc.prems(2) by (auto simp del: of_nat_Suc)
      then show "ptr + R + int r * R < int (length b)"
        by (simp add: algebra_simps)
    qed
    show "\<forall>r<n. \<forall>idx\<in>set idxP. slot_ok b (ptr + R + int r * R + idx)"
    proof (intro allI impI ballI)
      fix r idx assume "r < n" "idx \<in> set idxP"
      then have "slot_ok b (ptr + int (Suc r) * R + idx)"
        using Suc.prems(3) by (auto simp del: of_nat_Suc)
      then show "slot_ok b (ptr + R + int r * R + idx)"
        by (simp add: algebra_simps)
    qed
    show "distinct (filter (\<lambda>p. p \<noteq> 0) ?rest)" using d by simp
    show "\<forall>p\<in>set ?rest. p \<noteq> 0 \<longrightarrow> heap (released_nonnull ?ps0 st) p \<noteq> None"
    proof (intro ballI impI)
      fix p assume p: "p \<in> set ?rest" and nz: "p \<noteq> 0"
      have "set (filter (\<lambda>p. p \<noteq> 0) ?ps0) \<inter> set (filter (\<lambda>p. p \<noteq> 0) ?rest) = {}"
        using d by simp
      moreover have "p \<in> set (filter (\<lambda>p. p \<noteq> 0) ?rest)" using p nz by simp
      ultimately have "p \<notin> set (filter (\<lambda>p. p \<noteq> 0) ?ps0)" by blast
      then have "p \<notin> set ?ps0" using nz by simp
      moreover have "heap st p \<noteq> None" using l p nz by simp
      ultimately show "heap (released_nonnull ?ps0 st) p \<noteq> None"
        by (simp add: released_nonnull_simps)
    qed
  qed
  show ?case
    by (subst free_records.simps)
       (simp only: lt s0 rec split released_nonnull_append if_True sum.case)
qed

subsection \<open>Events\<close>

lemma pin_attempts_append: "pin_attempts (es @ es') = pin_attempts es @ pin_attempts es'"
  by (induction es rule: pin_attempts.induct) simp_all

lemma frees_append: "frees (es @ es') = frees es @ frees es'"
  by (induction es rule: frees.induct) simp_all

lemma frees_map_Free: "frees (map Free ps) = ps"
  by (induction ps) simp_all

section \<open>Facts about the entry points\<close>

subsection \<open>Encoding and decoding\<close>

lemma GetStringUTFRegion_whole:
  assumes "calloc_result env \<noteq> 0 \<or> s = [] \<or> \<not> list_all one_byte s"
  shows "\<exists>st2. GetStringUTFRegion s 0 (GetStringUTFLength s) (calloc_result env)
               (snd (calloc env (GetStringUTFLength s) st)) = Inr st2"
proof (cases "list_all one_byte s")
  case False
  then show ?thesis
    by (simp add: GetStringUTFRegion_def GetStringUTFLength_def utf8_encode_length_gt)
next
  case True
  then have len: "length (utf8_encode s) = length s"
    by (rule utf8_encode_length_one_byte)
  show ?thesis
  proof (cases "s = []")
    case True
    then show ?thesis
      by (simp add: GetStringUTFRegion_def GetStringUTFLength_def utf8_encode_def poke_def)
  next
    case False
    with assms \<open>list_all one_byte s\<close> have "calloc_result env \<noteq> 0" by blast
    then show ?thesis
      by (simp add: GetStringUTFRegion_def GetStringUTFLength_def len poke_def)
  qed
qed

lemma GetStringUTFRegion_null:
  assumes "calloc_result env = 0" "s \<noteq> []" "list_all one_byte s"
  shows "GetStringUTFRegion s 0 (GetStringUTFLength s) (calloc_result env)
               (snd (calloc env (GetStringUTFLength s) st)) = Inl BadPointer"
proof -
  have len: "length (utf8_encode s) = length s"
    using assms(3) by (rule utf8_encode_length_one_byte)
  then have "utf8_encode s \<noteq> []" using assms(2) by auto
  then show ?thesis
    using assms(1) by (simp add: GetStringUTFRegion_def GetStringUTFLength_def len poke_def)
qed

lemma compoundCpyVLStr_Some:
  "compoundCpyVLStr env st (Some s) (Some b) bufOfs =
     (case GetStringUTFRegion s 0 (GetStringUTFLength s) (calloc_result env)
             (snd (calloc env (GetStringUTFLength s) st)) of
        Inl f \<Rightarrow> Inl f
      | Inr st2 \<Rightarrow>
          if pin_ok env Buf
          then (case store_ptr b bufOfs (calloc_result env) of
                  Inl f \<Rightarrow> Inl f
                | Inr b' \<Rightarrow>
                    Inr (ReleasePrimitiveArrayCritical Buf
                           (log_event (GetCritical Buf True) (st2\<lparr>pinned := Buf # pinned st2\<rparr>)),
                         Some b', 0))
          else Inr (h5JNIFatalError ''compoundCpyVLStr:  buf not pinned''
                      (log_event (GetCritical Buf False) st2), Some b, - 1))"
  by (simp add: compoundCpyVLStr_def Let_def calloc_def GetPrimitiveArrayCritical_def
      split: sum.splits)

lemma compoundCpyVLStr_absent:
  "str = None \<or> buf = None \<Longrightarrow>
     compoundCpyVLStr env st str buf bufOfs =
       Inr (h5nullArgument (if str = None then ''compoundCpyVLStr:  str is NULL''
                            else ''compoundCpyVLStr:  buf is NULL'') st, buf, - 1)"
  by (auto simp: compoundCpyVLStr_def split: option.splits)

lemma nth_splice:
  assumes "n + length ys \<le> length xs" "i < length xs" "i < n \<or> n + length ys \<le> i"
  shows "(take n xs @ ys @ drop (n + length ys) xs) ! i = xs ! i"
proof (cases "i < n")
  case True
  then show ?thesis using assms by (simp add: nth_append)
next
  case False
  with assms have ge: "n + length ys \<le> i" by simp
  have ln: "length (take n xs) = n" using assms(1) by simp
  have "(take n xs @ ys @ drop (n + length ys) xs) ! i = (ys @ drop (n + length ys) xs) ! (i - n)"
  proof -
    have "\<not> i < n" using ge by arith
    then show ?thesis by (simp only: nth_append ln if_False)
  qed
  also have "\<dots> = drop (n + length ys) xs ! (i - n - length ys)"
  proof -
    have "\<not> i - n < length ys" using ge by arith
    then show ?thesis by (simp only: nth_append if_False)
  qed
  also have "\<dots> = xs ! (n + length ys + (i - n - length ys))"
    using assms(1) by (simp only: nth_drop)
  also have "n + length ys + (i - n - length ys) = i"
    using ge by simp
  finally show ?thesis .
qed

lemma one_byte_ucast: "one_byte c \<Longrightarrow> (ucast c :: byte) \<noteq> 0"
proof
  assume a: "one_byte c" and z: "(ucast c :: byte) = 0"
  from a have c: "c \<noteq> 0" "c \<le> 0x7F" by (simp_all add: one_byte_def)
  from c(2) have le: "unat c \<le> 127" by (simp add: word_le_nat_alt)
  from c(1) have nz: "unat c \<noteq> 0" by (simp add: unsigned_eq_0_iff)
  have "unat (ucast c :: byte) = take_bit 8 (unat c)"
    by (simp add: unsigned_ucast_eq)
  also have "\<dots> = unat c mod 256"
    by (simp add: take_bit_eq_mod)
  also have "\<dots> = unat c"
    using le by simp
  finally have "unat (ucast c :: byte) \<noteq> 0"
    using nz by simp
  with z show False by simp
qed

lemma utf8_encode_one_byte_nonzero: "list_all one_byte s \<Longrightarrow> 0 \<notin> set (utf8_encode s)"
  by (induction s) (auto simp: utf8_encode_Cons utf8_char_def one_byte_ucast one_byte_def utf8_encode_def)

text \<open>
  What the two calls do to a text, when the allocation and the pin succeed. A text with a
  code unit outside 1..0x7F has more bytes than code units, so \<^verbatim>\<open>GetStringUTFRegion\<close>,
  asked for as many code units as the text has bytes, throws and copies nothing: the block
  stays zero and decodes to the empty text. A text of one-byte code units is copied, and
  fills its block to the last byte: no zero byte ends it inside the block.
\<close>

lemma multibyte_text_lost:
  assumes "\<not> list_all one_byte s" "calloc_result env \<noteq> 0" "pin_ok env Buf" "slot_ok b bufOfs"
    "new_string_ok env"
  shows "\<exists>st1 b1 st2. compoundCpyVLStr env st (Some s) (Some b) bufOfs = Inr (st1, Some b1, 0) \<and>
           heap st1 (calloc_result env) = Some (replicate (GetStringUTFLength s) 0) \<and>
           createVLStrFromCompound env st1 (Some b1) bufOfs = Inr (st2, Some [])"
proof -
  have lt: "length s < GetStringUTFLength s"
    using assms(1) by (simp add: GetStringUTFLength_def utf8_encode_length_gt)
  then have pos: "0 < GetStringUTFLength s" by simp
  from assms(4) obtain b' where st: "store_ptr b bufOfs (calloc_result env) = Inr b'"
    by (simp add: store_ptr_def)
  then have ld: "load_ptr b' bufOfs = Inr (calloc_result env)"
    by (rule store_ptr_load)
  show ?thesis
    using lt pos assms(2,3,5) st ld
    by (simp add: compoundCpyVLStr_Some GetStringUTFRegion_def createVLStrFromCompound_def
        GetPrimitiveArrayCritical_def NewStringUTF_def)
qed

lemma one_byte_text_unterminated:
  assumes "list_all one_byte s" "calloc_result env \<noteq> 0" "pin_ok env Buf" "slot_ok b bufOfs"
  shows "\<exists>st1 b1. compoundCpyVLStr env st (Some s) (Some b) bufOfs = Inr (st1, Some b1, 0) \<and>
           heap st1 (calloc_result env) = Some (utf8_encode s) \<and>
           0 \<notin> set (utf8_encode s) \<and>
           createVLStrFromCompound env st1 (Some b1) bufOfs = Inl BadPointer"
proof -
  have len: "GetStringUTFLength s = length s" "length (utf8_encode s) = length s"
    using assms(1) by (simp_all add: GetStringUTFLength_def utf8_encode_length_one_byte)
  have nz: "0 \<notin> set (utf8_encode s)"
    using assms(1) by (rule utf8_encode_one_byte_nonzero)
  from assms(4) obtain b' where st: "store_ptr b bufOfs (calloc_result env) = Inr b'"
    by (simp add: store_ptr_def)
  then have ld: "load_ptr b' bufOfs = Inr (calloc_result env)"
    by (rule store_ptr_load)
  show ?thesis
    using len nz assms(2,3) st ld length_0_conv [of "utf8_encode s"]
    by (simp add: compoundCpyVLStr_Some GetStringUTFRegion_def createVLStrFromCompound_def
        GetPrimitiveArrayCritical_def NewStringUTF_def poke_def)
qed

subsection \<open>Releasing\<close>

lemma slot_ok_int:
  "slot_ok b ofs \<longleftrightarrow> 0 \<le> ofs \<and> ofs + int getPointerSize \<le> int (length b)"
  by (auto simp: slot_ok_def)

lemma free_records_bounded_eq:
  assumes "0 < R"
  shows "int (length b) - ptr \<le> int n * R \<Longrightarrow>
         \<exists>r. free_records b R idxP ptr st = Some r \<and> free_records_bounded n b R idxP ptr st = Some r"
proof (induction n arbitrary: ptr st)
  case 0
  then have "\<not> ptr < int (length b)" by simp
  then show ?case
    by (subst free_records.simps) simp
next
  case (Suc n)
  show ?case
  proof (cases "ptr < int (length b)")
    case False
    then show ?thesis by (subst free_records.simps) simp
  next
    case True
    show ?thesis
    proof (cases "free_slots b ptr idxP st")
      case (Inl f)
      with True show ?thesis by (subst free_records.simps) simp
    next
      case (Inr st')
      have "int (length b) - (ptr + R) \<le> int n * R"
        using Suc.prems by (simp add: algebra_simps)
      from Suc.IH [OF this, of st'] obtain r where
        "free_records b R idxP (ptr + R) st' = Some r"
        "free_records_bounded n b R idxP (ptr + R) st' = Some r" by blast
      with True Inr show ?thesis by (subst free_records.simps) simp
    qed
  qed
qed

text \<open>
  Without a positive \<open>recordSize\<close> the loop need not end: with no offsets to free, and a
  buffer that is not empty, it has no result.
\<close>

lemma free_records_no_result:
  assumes "recordSize \<le> 0" "ptr < int (length b)"
  shows "free_records b recordSize [] ptr st = None"
proof (rule ccontr)
  assume "free_records b recordSize [] ptr st \<noteq> None"
  then obtain r where r: "free_records b recordSize [] ptr st = Some r" by blast
  have "\<not> (recordSize \<le> 0 \<and> [] = ([] :: int list) \<and> ptr < int (length b))"
  proof (rule free_records.raw_induct
      [where P = "\<lambda>b R idxP ptr st r. \<not> (R \<le> 0 \<and> idxP = [] \<and> ptr < int (length b))", OF _ r])
    fix f b R idxP ptr st y
    assume IH: "\<And>b R idxP ptr st y. f b R idxP ptr st = Some y
                  \<Longrightarrow> \<not> (R \<le> 0 \<and> idxP = [] \<and> ptr < int (length b))"
      and step: "(if ptr < int (length b)
                  then case free_slots b ptr idxP st of
                         Inl e \<Rightarrow> Some (Inl e)
                       | Inr st' \<Rightarrow> f b R idxP (ptr + R) st'
                  else Some (Inr st)) = Some y"
    show "\<not> (R \<le> 0 \<and> idxP = [] \<and> ptr < int (length b))"
    proof
      assume a: "R \<le> 0 \<and> idxP = [] \<and> ptr < int (length b)"
      with step have "f b R [] (ptr + R) st = Some y" by simp
      from IH [OF this] a show False by simp
    qed
  qed
  with assms show False by simp
qed

lemma nat_ceil_covers:
  assumes "0 < k"
  shows "(m::nat) \<le> ((m + k - 1) div k) * k"
proof -
  have "(m + k - 1) mod k < k" using assms by simp
  moreover have "(m + k - 1) div k * k + (m + k - 1) mod k = m + k - 1"
    by (rule div_mult_mod_eq)
  ultimately show ?thesis by arith
qed

lemma nat_ceil_le:
  assumes "0 < k"
  shows "((m::nat) + k - 1) div k \<le> m"
proof -
  have mk: "m \<le> m * k" using assms by simp
  have "(m + 1) * k = m * k + k" by simp
  with mk assms have "m + k - 1 < (m + 1) * k" by arith
  then have "(m + k - 1) div k < m + 1" by (rule less_mult_imp_div_less)
  then show ?thesis by simp
qed

lemma record_count_covers:
  assumes "0 < R"
  shows "int (length b) \<le> int ((length b + nat R - 1) div nat R) * R"
proof -
  have "length b \<le> ((length b + nat R - 1) div nat R) * nat R"
    using assms by (intro nat_ceil_covers) simp
  then have "int (length b) \<le> int (((length b + nat R - 1) div nat R) * nat R)"
    by (simp only: of_nat_le_iff)
  also have "\<dots> = int ((length b + nat R - 1) div nat R) * R"
    using assms by simp
  finally show ?thesis .
qed

lemma freeCompoundVLStr_released:
  assumes pins: "pin_ok env VlIndices" "pin_ok env Buf"
    and R: "0 < R"
    and stop: "int (length b) \<le> int n * R"
    and go: "\<forall>r<n. int r * R < int (length b)"
    and ok: "\<forall>r<n. \<forall>idx\<in>set idxP. slot_ok b (int r * R + idx)"
    and ps: "ps = concat (map (\<lambda>r. map (\<lambda>idx. slot_at b (int r * R + idx)) idxP) [0..<n])"
    and dist: "distinct ps"
    and live: "\<forall>p\<in>set ps. p \<noteq> 0 \<and> heap st p \<noteq> None"
  shows "\<exists>st'. freeCompoundVLStr env st (Some b) R (Some idxP) = Some (Inr (st', 0)) \<and>
           trace st' = trace st @ [GetCritical VlIndices True, GetCritical Buf True] @ map Free ps
                         @ [ReleaseCritical VlIndices, ReleaseCritical Buf] \<and>
           (\<forall>a. heap st' a = (if a \<in> set ps then None else heap st a)) \<and>
           pinned st' = pinned st"
proof -
  let ?st2 = "log_event (GetCritical Buf True)
               ((log_event (GetCritical VlIndices True) (st\<lparr>pinned := VlIndices # pinned st\<rparr>))
                  \<lparr>pinned := Buf # VlIndices # pinned st\<rparr>)"
  have "free_records b R idxP 0 ?st2 =
          Some (Inr (released (concat (map (\<lambda>r. map (\<lambda>idx. slot_at b (0 + int r * R + idx)) idxP) [0..<n])) ?st2))"
    using R stop go ok dist live unfolding ps
    by (intro free_records_released) simp_all
  then have loop: "free_records b R idxP 0 ?st2 = Some (Inr (released ps ?st2))"
    by (simp add: ps)
  show ?thesis
    using pins
    by (simp add: freeCompoundVLStr_def GetPrimitiveArrayCritical_def loop released_simps)
qed

lemma freeCompoundVLStr_released_nonnull:
  assumes pins: "pin_ok env VlIndices" "pin_ok env Buf"
    and R: "0 < R"
    and stop: "int (length b) \<le> int n * R"
    and go: "\<forall>r<n. int r * R < int (length b)"
    and ok: "\<forall>r<n. \<forall>idx\<in>set idxP. slot_ok b (int r * R + idx)"
    and ps: "ps = concat (map (\<lambda>r. map (\<lambda>idx. slot_at b (int r * R + idx)) idxP) [0..<n])"
    and dist: "distinct (filter (\<lambda>p. p \<noteq> 0) ps)"
    and live: "\<forall>p\<in>set ps. p \<noteq> 0 \<longrightarrow> heap st p \<noteq> None"
  shows "\<exists>st'. freeCompoundVLStr env st (Some b) R (Some idxP) = Some (Inr (st', 0)) \<and>
           trace st' = trace st @ [GetCritical VlIndices True, GetCritical Buf True] @ map Free ps
                         @ [ReleaseCritical VlIndices, ReleaseCritical Buf] \<and>
           (\<forall>a. heap st' a = (if a \<in> set ps \<and> a \<noteq> 0 then None else heap st a)) \<and>
           pinned st' = pinned st"
proof -
  let ?st2 = "log_event (GetCritical Buf True)
               ((log_event (GetCritical VlIndices True) (st\<lparr>pinned := VlIndices # pinned st\<rparr>))
                  \<lparr>pinned := Buf # VlIndices # pinned st\<rparr>)"
  have "free_records b R idxP 0 ?st2 =
          Some (Inr (released_nonnull
            (concat (map (\<lambda>r. map (\<lambda>idx. slot_at b (0 + int r * R + idx)) idxP) [0..<n])) ?st2))"
    using R stop go ok dist live unfolding ps
    by (intro free_records_released_nonnull) simp_all
  then have loop: "free_records b R idxP 0 ?st2 = Some (Inr (released_nonnull ps ?st2))"
    by (simp add: ps)
  show ?thesis
    using pins
    by (simp add: freeCompoundVLStr_def GetPrimitiveArrayCritical_def loop released_nonnull_simps)
qed

lemma length_record_slots:
  "length (concat (map (\<lambda>r. map (\<lambda>idx. F r idx) idxP) [0..<n])) = n * length idxP"
  by (induction n) simp_all

subsection \<open>The concrete inputs, evaluated\<close>

lemmas model_defs =
  compoundCpyVLStr_def createVLStrFromCompound_def freeCompoundVLStr_def
  GetPrimitiveArrayCritical_def ReleasePrimitiveArrayCritical_def calloc_def
  GetStringUTFRegion_def GetStringUTFLength_def NewStringUTF_def poke_def free_def
  store_ptr_def load_ptr_def slot_ok_def slot_at_def getPointerSize_def ptr_bytes_def bytes_ptr_def
  utf8_encode_def utf8_char_def h5nullArgument_def h5JNIFatalError_def log_event_def

lemmas input_defs =
  env_at_def env_unpinned_def every_pin_def no_pin_def fresh_state_def hello_def zeros8_def
  tail_buf_def three_buf_def three_blocks_def hello_encoded_def hello_slot_def hello_decoded_def
  hi_def hi_encoded_def hi_buf_def three_released_def tail_released_def

lemma encode_hello:
  "compoundCpyVLStr (env_at 0x1000) fresh_state (Some hello) (Some zeros8) 0
     = Inr (hello_encoded, Some hello_slot, 0)"
  by (simp add: model_defs input_defs Let_def upt_rec)

lemma decode_hello:
  "createVLStrFromCompound (env_at 0x1000) hello_encoded (Some hello_slot) 0
     = Inr (hello_decoded, Some [])"
  by (simp add: model_defs input_defs)

lemma encode_hi:
  "compoundCpyVLStr (env_at 0x4000) three_blocks (Some hi) (Some three_buf) 8
     = Inr (hi_encoded, Some hi_buf, 0)"
  by (simp add: model_defs input_defs Let_def upt_rec fun_eq_iff)

lemma decode_hi:
  "createVLStrFromCompound (env_at 0x4000) hi_encoded (Some hi_buf) 8 = Inl BadPointer"
  by (simp add: model_defs input_defs)

lemma release_three:
  "freeCompoundVLStr (env_at 0) three_blocks (Some three_buf) 8 (Some [0])
     = Some (Inr (three_released, 0))"
  by (simp add: model_defs input_defs free_records.simps fun_eq_iff)

lemma release_tail:
  "freeCompoundVLStr (env_at 0) three_blocks (Some tail_buf) 12 (Some [0])
     = Some (Inr (tail_released, 0))"
  by (simp add: model_defs input_defs free_records.simps fun_eq_iff)

lemma release_null_slot:
  "freeCompoundVLStr (env_at 0) three_blocks (Some null_buf) 8 (Some [0])
     = Some (Inr (null_released, 0))"
  by (simp add: model_defs input_defs null_buf_def null_released_def free_records.simps
      fun_eq_iff)

text \<open>An offset given twice has its slot freed twice, which \<^verbatim>\<open>free\<close> does not allow.\<close>

lemma release_repeated_offset:
  "freeCompoundVLStr (env_at 0) three_blocks (Some three_buf) 8 (Some [0, 0])
     = Some (Inl InvalidFree)"
  by (simp add: model_defs input_defs free_records.simps)

lemma encode_null_one_byte:
  "compoundCpyVLStr (env_at 0) fresh_state (Some [0x61]) (Some zeros8) 0 = Inl BadPointer"
  by (simp add: model_defs input_defs Let_def)

section \<open>The claims\<close>

subsection \<open>C1: round trip\<close>

text \<open>
  Claim C1: encoding a text at a slot offset and then decoding at the same offset yields
  the text again, also for a text with multi-byte characters such as "hello" with an
  accented e.

  The code does not do that. It passes the byte length of the text (6) to
  \<^verbatim>\<open>GetStringUTFRegion\<close> as the number of code units to copy; the text has 5, so the
  function throws and copies nothing. The encode still returns 0, with the address of six
  zero bytes in the slot, and the decode yields the empty text.
\<close>

theorem roundtrip_hello_lost:
  "compoundCpyVLStr (env_at 0x1000) fresh_state (Some hello) (Some zeros8) 0
     = Inr (hello_encoded, Some hello_slot, 0) \<and>
   createVLStrFromCompound (env_at 0x1000) hello_encoded (Some hello_slot) 0
     = Inr (hello_decoded, Some []) \<and>
   Some [] \<noteq> Some hello \<and>
   Throw StringIndexOutOfBoundsException \<in> set (trace hello_encoded)"
  using encode_hello decode_hello
  by (simp add: hello_def hello_encoded_def)

subsection \<open>C2: the tail of the buffer\<close>

text \<open>
  Claim C2, as amended: for a buffer whose length is not a multiple of the positive
  \<open>recordSize\<close>, the loop runs once for every record start 0, \<open>recordSize\<close>,
  \<open>2 * recordSize\<close>, ... below the length of the buffer and stops once the running
  offset is no longer below it; the partial tail, which starts below the length, is
  processed as one more record. When the slots of all these records lie inside the buffer
  and hold the addresses of distinct live blocks, every one of them is freed, those of
  the tail last.
\<close>

theorem partial_tail_processed:
  assumes "0 < recordSize"
    and "int (length b) mod recordSize \<noteq> 0"
    and "n = length b div nat recordSize"
    and "\<forall>r\<le>n. \<forall>idx\<in>set idxP. slot_ok b (int r * recordSize + idx)"
    and "pin_ok env VlIndices" and "pin_ok env Buf"
    and "ps = [slot_at b (int r * recordSize + idx). r \<leftarrow> [0..<Suc n], idx \<leftarrow> idxP]"
    and "distinct ps"
    and "\<forall>p\<in>set ps. p \<noteq> 0 \<and> heap st p \<noteq> None"
  shows "\<exists>st'. freeCompoundVLStr env st (Some b) recordSize (Some idxP) = Some (Inr (st', 0)) \<and>
           trace st' = trace st @ [GetCritical VlIndices True, GetCritical Buf True] @ map Free ps
                         @ [ReleaseCritical VlIndices, ReleaseCritical Buf] \<and>
           frees (trace st') = frees (trace st) @ ps \<and>
           (\<forall>a. heap st' a = (if a \<in> set ps then None else heap st a)) \<and>
           int n * recordSize < int (length b) \<and>
           int (length b) < int n * recordSize + recordSize"
proof -
  let ?k = "nat recordSize"
  have k: "0 < ?k" "int ?k = recordSize" using assms(1) by simp_all
  have dm: "n * ?k + length b mod ?k = length b"
    unfolding assms(3) by (rule div_mult_mod_eq)
  have "int (length b mod ?k) = int (length b) mod recordSize"
    using k by (simp add: zmod_int)
  then have m0: "0 < length b mod ?k"
    using assms(2) by auto
  have mk: "length b mod ?k < ?k"
    using k by simp
  have lo: "n * ?k < length b" using dm m0 by arith
  have hi: "length b < n * ?k + ?k" using dm mk by arith
  have lo': "int n * recordSize < int (length b)"
  proof -
    have "int (n * ?k) < int (length b)" using lo by (simp only: of_nat_less_iff)
    then show ?thesis using k by simp
  qed
  have hi': "int (length b) < int n * recordSize + recordSize"
  proof -
    have "int (length b) < int (n * ?k + ?k)" using hi by (simp only: of_nat_less_iff)
    then show ?thesis using k by simp
  qed
  have stop: "int (length b) \<le> int (Suc n) * recordSize"
    using hi' by (simp add: algebra_simps)
  have go: "\<forall>r<Suc n. int r * recordSize < int (length b)"
  proof (intro allI impI)
    fix r assume "r < Suc n"
    then have "int r * recordSize \<le> int n * recordSize"
      using assms(1) by (intro mult_right_mono) simp_all
    then show "int r * recordSize < int (length b)" using lo' by simp
  qed
  have ok: "\<forall>r<Suc n. \<forall>idx\<in>set idxP. slot_ok b (int r * recordSize + idx)"
    using assms(4) by (simp add: less_Suc_eq_le)
  have ps: "ps = concat (map (\<lambda>r. map (\<lambda>idx. slot_at b (int r * recordSize + idx)) idxP) [0..<Suc n])"
    using assms(7) by simp
  from freeCompoundVLStr_released [OF assms(5,6,1) stop go ok ps assms(8,9)] lo' hi'
  show ?thesis by (auto simp: frees_append frees_map_Free)
qed

text \<open>The theorem at \<open>tail_buf\<close>: twenty bytes, records of twelve, one slot at offset 0.\<close>

theorem partial_tail_processed_witness:
  "int (length tail_buf) mod 12 \<noteq> 0 \<and>
   (\<exists>st'. freeCompoundVLStr (env_at 0) three_blocks (Some tail_buf) 12 (Some [0])
            = Some (Inr (st', 0)) \<and>
         trace st' = trace three_blocks @ [GetCritical VlIndices True, GetCritical Buf True]
                       @ map Free [0x1000, 0x2000]
                       @ [ReleaseCritical VlIndices, ReleaseCritical Buf] \<and>
         frees (trace st') = frees (trace three_blocks) @ [0x1000, 0x2000] \<and>
         (\<forall>a. heap st' a = (if a \<in> set [0x1000, 0x2000] then None else heap three_blocks a)) \<and>
         int 1 * 12 < int (length tail_buf) \<and>
         int (length tail_buf) < int 1 * 12 + 12)"
proof -
  have m: "int (length tail_buf) mod 12 \<noteq> 0"
    by (simp add: tail_buf_def)
  have n: "1 = length tail_buf div nat 12"
    by (simp add: tail_buf_def)
  have ps: "[0x1000, 0x2000] =
        [slot_at tail_buf (int r * 12 + idx). r \<leftarrow> [0..<Suc 1], idx \<leftarrow> [0]]"
    by (simp add: upt_rec slot_at_def tail_buf_def getPointerSize_def bytes_ptr_def)
  have "\<exists>st'. freeCompoundVLStr (env_at 0) three_blocks (Some tail_buf) 12 (Some [0])
            = Some (Inr (st', 0)) \<and>
         trace st' = trace three_blocks @ [GetCritical VlIndices True, GetCritical Buf True]
                       @ map Free [0x1000, 0x2000]
                       @ [ReleaseCritical VlIndices, ReleaseCritical Buf] \<and>
         frees (trace st') = frees (trace three_blocks) @ [0x1000, 0x2000] \<and>
         (\<forall>a. heap st' a = (if a \<in> set [0x1000, 0x2000] then None else heap three_blocks a)) \<and>
         int 1 * 12 < int (length tail_buf) \<and>
         int (length tail_buf) < int 1 * 12 + 12"
    by (rule partial_tail_processed [OF _ m n _ _ _ ps])
       (simp_all add: tail_buf_def getPointerSize_def env_at_def every_pin_def three_blocks_def
          slot_ok_def le_Suc_eq)
  with m show ?thesis by blast
qed

text \<open>
  The claim as it was stated says that no slot of a record shorter than \<open>recordSize\<close>
  is read or freed. In \<open>tail_buf\<close> the record that starts at offset 12 has eight bytes;
  its slot holds 0x2000, and the block at 0x2000 is freed.
\<close>

theorem partial_tail_counterexample:
  "int (length tail_buf) mod 12 \<noteq> 0 \<and>
   freeCompoundVLStr (env_at 0) three_blocks (Some tail_buf) 12 (Some [0])
     = Some (Inr (tail_released, 0)) \<and>
   load_ptr tail_buf 12 = Inr 0x2000 \<and>
   frees (trace tail_released) = [0x1000, 0x2000] \<and>
   heap three_blocks 0x2000 = Some [0x62, 0] \<and>
   heap tail_released 0x2000 = None"
  using release_tail
  by (simp add: tail_buf_def tail_released_def three_blocks_def load_ptr_def slot_ok_def
      slot_at_def getPointerSize_def bytes_ptr_def)

subsection \<open>C3: the allocation\<close>

text \<open>
  Claim C3: for a text that is not absent, encode allocates a new null-terminated native
  copy of the text, in an allocation sized by the byte length of the text (6 for "hello"
  with an accented e) and not by its character count, and that size exactly bounds the
  copy written.

  The code sizes the allocation by the byte length, and no more: \<^verbatim>\<open>calloc(1, len)\<close> leaves
  no room for a terminating zero byte, and the copy is asked for \<open>len\<close> code units
  instead of all the code units of the text. For \<open>hello\<close> the block has six bytes, all
  zero, and is no copy of the text; for \<open>hi\<close> the block has two bytes, the text's, and no
  zero byte after them.
\<close>

theorem encode_allocation_not_a_copy:
  "GetStringUTFLength hello = 6 \<and> length hello = 5 \<and>
   utf8_encode hello = [0x68, 0xC3, 0xA9, 0x6C, 0x6C, 0x6F] \<and>
   compoundCpyVLStr (env_at 0x1000) fresh_state (Some hello) (Some zeros8) 0
     = Inr (hello_encoded, Some hello_slot, 0) \<and>
   heap hello_encoded 0x1000 = Some [0, 0, 0, 0, 0, 0] \<and>
   compoundCpyVLStr (env_at 0x4000) three_blocks (Some hi) (Some three_buf) 8
     = Inr (hi_encoded, Some hi_buf, 0) \<and>
   heap hi_encoded 0x4000 = Some [0x68, 0x69] \<and>
   createVLStrFromCompound (env_at 0x4000) hi_encoded (Some hi_buf) 8 = Inl BadPointer"
  using encode_hello encode_hi decode_hi
  by (simp add: GetStringUTFLength_def utf8_encode_def utf8_char_def hello_def
      hello_encoded_def hi_encoded_def)

subsection \<open>C4: one release per record and offset\<close>

text \<open>
  Claim C4, as amended: over a buffer of exactly \<open>N * recordSize\<close> bytes, with
  \<open>recordSize\<close> positive, and an offset set that is not absent, whose offsets lie inside
  a record and whose slots hold the null address or the addresses of live blocks, no
  block in two slots, release-all, once it has pinned both arrays, calls \<^verbatim>\<open>free\<close> exactly \<open>N * |offsets|\<close> times, once for
  each pair of a record and an offset, the records in the order 0 .. N - 1 and the offsets
  of each record in the order of the set, and returns 0. Exactly the blocks of the slots
  that are not null are released, each once; they are \<open>N * |offsets|\<close> allocations
  when no slot is null.
\<close>

theorem releaseAll_exact:
  assumes "0 < recordSize"
    and "int (length b) = int N * recordSize"
    and "\<forall>idx\<in>set idxP. 0 \<le> idx \<and> idx + int getPointerSize \<le> recordSize"
    and "pin_ok env VlIndices" and "pin_ok env Buf"
    and "ps = [slot_at b (int r * recordSize + idx). r \<leftarrow> [0..<N], idx \<leftarrow> idxP]"
    and "distinct (filter (\<lambda>p. p \<noteq> 0) ps)"
    and "\<forall>p\<in>set ps. p \<noteq> 0 \<longrightarrow> heap st p \<noteq> None"
  shows "\<exists>st'. freeCompoundVLStr env st (Some b) recordSize (Some idxP) = Some (Inr (st', 0)) \<and>
           trace st' = trace st @ [GetCritical VlIndices True, GetCritical Buf True] @ map Free ps
                         @ [ReleaseCritical VlIndices, ReleaseCritical Buf] \<and>
           frees (trace st') = frees (trace st) @ ps \<and>
           length ps = N * length idxP \<and>
           (\<forall>a. heap st' a = (if a \<in> set ps \<and> a \<noteq> 0 then None else heap st a)) \<and>
           (0 \<notin> set ps \<longrightarrow>
              distinct ps \<and> (\<forall>a. heap st' a = (if a \<in> set ps then None else heap st a)))"
proof -
  have stop: "int (length b) \<le> int N * recordSize"
    using assms(2) by simp
  have go: "\<forall>r<N. int r * recordSize < int (length b)"
    using assms(1,2) by simp
  have ok: "\<forall>r<N. \<forall>idx\<in>set idxP. slot_ok b (int r * recordSize + idx)"
  proof (intro allI impI ballI)
    fix r idx assume r: "r < N" and idx: "idx \<in> set idxP"
    then have i: "0 \<le> idx" "idx + int getPointerSize \<le> recordSize"
      using assms(3) by simp_all
    have "int (Suc r) * recordSize \<le> int N * recordSize"
      using r assms(1) by (intro mult_right_mono) simp_all
    then have "int r * recordSize + recordSize \<le> int (length b)"
      using assms(2) by (simp add: algebra_simps)
    moreover have "0 \<le> int r * recordSize"
      using assms(1) by simp
    ultimately show "slot_ok b (int r * recordSize + idx)"
      using i by (simp add: slot_ok_int)
  qed
  have ps: "ps = concat (map (\<lambda>r. map (\<lambda>idx. slot_at b (int r * recordSize + idx)) idxP) [0..<N])"
    using assms(6) by simp
  have nonnull: "filter (\<lambda>p. p \<noteq> 0) ps = ps" if "0 \<notin> set ps"
    using that by (intro filter_True) metis
  from freeCompoundVLStr_released_nonnull [OF assms(4,5,1) stop go ok ps assms(7,8)]
  obtain st' where st':
    "freeCompoundVLStr env st (Some b) recordSize (Some idxP) = Some (Inr (st', 0))"
    "trace st' = trace st @ [GetCritical VlIndices True, GetCritical Buf True] @ map Free ps
                         @ [ReleaseCritical VlIndices, ReleaseCritical Buf]"
    "\<forall>a. heap st' a = (if a \<in> set ps \<and> a \<noteq> 0 then None else heap st a)"
    by blast
  have fr: "frees (trace st') = frees (trace st) @ ps"
    by (simp add: st'(2) frees_append frees_map_Free)
  have len: "length ps = N * length idxP"
    by (simp add: ps length_record_slots)
  have nn: "0 \<notin> set ps \<longrightarrow>
              distinct ps \<and> (\<forall>a. heap st' a = (if a \<in> set ps then None else heap st a))"
  proof
    assume z: "0 \<notin> set ps"
    have "distinct ps" using assms(7) nonnull [OF z] by simp
    moreover have "\<forall>a. heap st' a = (if a \<in> set ps then None else heap st a)"
      using st'(3) z by auto
    ultimately show "distinct ps \<and> (\<forall>a. heap st' a = (if a \<in> set ps then None else heap st a))"
      by simp
  qed
  from st' fr len nn show ?thesis by blast
qed

text \<open>
  The theorem at \<open>pair_buf\<close>, two records with the offsets 8 and 0 in this order and one
  null slot, and at \<open>pair_head\<close>, where no slot is null.
\<close>

theorem releaseAll_exact_witness:
  "(\<exists>st'. freeCompoundVLStr (env_at 0) three_blocks (Some pair_buf) 16 (Some [8, 0])
            = Some (Inr (st', 0)) \<and>
         trace st' = trace three_blocks @ [GetCritical VlIndices True, GetCritical Buf True]
                       @ map Free [0x2000, 0x1000, 0, 0x3000]
                       @ [ReleaseCritical VlIndices, ReleaseCritical Buf] \<and>
         frees (trace st') = frees (trace three_blocks) @ [0x2000, 0x1000, 0, 0x3000] \<and>
         length [0x2000, 0x1000, 0, 0x3000 :: address] = 2 * length [8, 0 :: int] \<and>
         (\<forall>a. heap st' a = (if a \<in> set [0x2000, 0x1000, 0, 0x3000] \<and> a \<noteq> 0 then None
                             else heap three_blocks a))) \<and>
   (0 :: address) \<notin> set [0x2000, 0x1000] \<and>
   (\<exists>st'. freeCompoundVLStr (env_at 0) three_blocks (Some pair_head) 16 (Some [8, 0])
            = Some (Inr (st', 0)) \<and>
         frees (trace st') = frees (trace three_blocks) @ [0x2000, 0x1000] \<and>
         length [0x2000, 0x1000 :: address] = 1 * length [8, 0 :: int] \<and>
         distinct [0x2000, 0x1000 :: address] \<and>
         (\<forall>a. heap st' a = (if a \<in> set [0x2000, 0x1000] then None else heap three_blocks a)))"
proof -
  have pins: "pin_ok (env_at 0) VlIndices" "pin_ok (env_at 0) Buf"
    by (simp_all add: env_at_def every_pin_def)
  have R: "(0::int) < 16" by simp
  have ofs: "\<forall>idx\<in>set [8, 0 :: int]. 0 \<le> idx \<and> idx + int getPointerSize \<le> 16"
    by (simp add: getPointerSize_def)
  have len2: "int (length pair_buf) = int 2 * 16"
    by (simp add: pair_buf_def)
  have ps2: "[0x2000, 0x1000, 0, 0x3000] =
        [slot_at pair_buf (int r * 16 + idx). r \<leftarrow> [0..<2], idx \<leftarrow> [8, 0]]"
    by (simp add: upt_rec slot_at_def pair_buf_def getPointerSize_def bytes_ptr_def)
  have d2: "distinct (filter (\<lambda>p. p \<noteq> 0) [0x2000, 0x1000, 0, 0x3000 :: address])"
    by simp
  have l2: "\<forall>p\<in>set [0x2000, 0x1000, 0, 0x3000]. p \<noteq> 0 \<longrightarrow> heap three_blocks p \<noteq> None"
    by (simp add: three_blocks_def)
  have len1: "int (length pair_head) = int 1 * 16"
    by (simp add: pair_head_def)
  have ps1: "[0x2000, 0x1000] =
        [slot_at pair_head (int r * 16 + idx). r \<leftarrow> [0..<1], idx \<leftarrow> [8, 0]]"
    by (simp add: upt_rec slot_at_def pair_head_def getPointerSize_def bytes_ptr_def)
  have d1: "distinct (filter (\<lambda>p. p \<noteq> 0) [0x2000, 0x1000 :: address])"
    by simp
  have l1: "\<forall>p\<in>set [0x2000, 0x1000]. p \<noteq> 0 \<longrightarrow> heap three_blocks p \<noteq> None"
    by (simp add: three_blocks_def)
  have z1: "(0 :: address) \<notin> set [0x2000, 0x1000]"
    by simp
  note two = releaseAll_exact [OF R len2 ofs pins ps2 d2 l2]
  note one = releaseAll_exact [OF R len1 ofs pins ps1 d1 l1]
  from two have a: "\<exists>st'. freeCompoundVLStr (env_at 0) three_blocks (Some pair_buf) 16 (Some [8, 0])
            = Some (Inr (st', 0)) \<and>
         trace st' = trace three_blocks @ [GetCritical VlIndices True, GetCritical Buf True]
                       @ map Free [0x2000, 0x1000, 0, 0x3000]
                       @ [ReleaseCritical VlIndices, ReleaseCritical Buf] \<and>
         frees (trace st') = frees (trace three_blocks) @ [0x2000, 0x1000, 0, 0x3000] \<and>
         length [0x2000, 0x1000, 0, 0x3000 :: address] = 2 * length [8, 0 :: int] \<and>
         (\<forall>a. heap st' a = (if a \<in> set [0x2000, 0x1000, 0, 0x3000] \<and> a \<noteq> 0 then None
                             else heap three_blocks a))"
    by blast
  from one z1 have b: "\<exists>st'. freeCompoundVLStr (env_at 0) three_blocks (Some pair_head) 16 (Some [8, 0])
            = Some (Inr (st', 0)) \<and>
         frees (trace st') = frees (trace three_blocks) @ [0x2000, 0x1000] \<and>
         length [0x2000, 0x1000 :: address] = 1 * length [8, 0 :: int] \<and>
         distinct [0x2000, 0x1000 :: address] \<and>
         (\<forall>a. heap st' a = (if a \<in> set [0x2000, 0x1000] then None else heap three_blocks a))"
    by blast
  from a z1 b show ?thesis by blast
qed

text \<open>
  The claim as it was stated has \<open>N * |offsets|\<close> allocations released for every buffer
  of \<open>N\<close> records. In \<open>null_buf\<close>, two records with one offset, the first slot holds the
  null address: \<^verbatim>\<open>free\<close> is called twice, and of the three live blocks only the one at
  0x2000 is released.
\<close>

theorem releaseAll_null_slot_counterexample:
  "int (length null_buf) = int 2 * 8 \<and>
   freeCompoundVLStr (env_at 0) three_blocks (Some null_buf) 8 (Some [0])
     = Some (Inr (null_released, 0)) \<and>
   frees (trace null_released) = [0, 0x2000] \<and>
   heap null_released 0x1000 = heap three_blocks 0x1000 \<and>
   heap null_released 0x2000 = None \<and>
   heap three_blocks 0x2000 = Some [0x62, 0] \<and>
   heap null_released 0x3000 = heap three_blocks 0x3000 \<and>
   2 * length [0 :: int] = 2"
  using release_null_slot
  by (simp add: null_buf_def null_released_def three_blocks_def)

subsection \<open>C5: absent arguments\<close>

text \<open>
  Claim C5: a call of encode, decode or release-all with an absent text, buffer or offset
  collection reports the absent argument before any attempt to pin an array; an absent
  buffer never leads to a pin call.

  Each such call returns the failure value, and the state it leaves is the state before
  the call with the one report added: the calls of \<^verbatim>\<open>GetPrimitiveArrayCritical\<close> in the
  trace, and the pinned arrays, are those of before.
\<close>

theorem absent_argument_reported:
  "(str = None \<or> buf = None \<longrightarrow>
      (\<exists>m. compoundCpyVLStr env st str buf bufOfs = Inr (h5nullArgument m st, buf, - 1))) \<and>
   (buf = None \<longrightarrow>
      (\<exists>m. createVLStrFromCompound env st buf offset = Inr (h5nullArgument m st, None))) \<and>
   (buf = None \<or> vlIndices = None \<longrightarrow>
      (\<exists>m. freeCompoundVLStr env st buf recordSize vlIndices
             = Some (Inr (h5nullArgument m st, - 1)))) \<and>
   pin_attempts (trace (h5nullArgument m st)) = pin_attempts (trace st) \<and>
   pinned (h5nullArgument m st) = pinned st"
  by (auto simp: compoundCpyVLStr_def createVLStrFromCompound_def freeCompoundVLStr_def
      pin_attempts_append split: option.splits)

text \<open>The theorem with an absent buffer, for the three entry points.\<close>

theorem absent_argument_reported_witness:
  "(\<exists>m. compoundCpyVLStr (env_at 0x1000) fresh_state (Some hello) None 0
          = Inr (h5nullArgument m fresh_state, None, - 1)) \<and>
   (\<exists>m. createVLStrFromCompound (env_at 0x1000) fresh_state None 0
          = Inr (h5nullArgument m fresh_state, None)) \<and>
   (\<exists>m. freeCompoundVLStr (env_at 0x1000) fresh_state None 8 (Some [0])
          = Some (Inr (h5nullArgument m fresh_state, - 1)))"
  using absent_argument_reported [where str = "Some hello" and buf = None
      and env = "env_at 0x1000" and st = fresh_state and bufOfs = 0 and offset = 0
      and vlIndices = "Some [0]" and recordSize = 8]
  by simp

subsection \<open>C6: a failed encode\<close>

text \<open>
  Claim C6: whenever encode fails, because the text is absent, the buffer is absent or the
  buffer cannot be pinned, it returns -1 and the buffer is as it was before the call.

  With an absent argument the call always returns so. When the pin would fail, the call
  returns so whenever it reaches the pin; it does not reach it only if \<^verbatim>\<open>calloc\<close> has
  returned the null address and the copy has written through it. And every return with
  a status other than 0 has the status -1, the buffer of before, and one of the three
  causes.
\<close>

theorem encode_failure_leaves_buffer:
  "(str = None \<or> buf = None \<longrightarrow>
      (\<exists>st'. compoundCpyVLStr env st str buf bufOfs = Inr (st', buf, - 1))) \<and>
   (\<not> pin_ok env Buf \<longrightarrow>
      (\<exists>st'. compoundCpyVLStr env st str buf bufOfs = Inr (st', buf, - 1)) \<or>
      (compoundCpyVLStr env st str buf bufOfs = Inl BadPointer \<and> calloc_result env = 0)) \<and>
   (\<forall>st' buf' rc. compoundCpyVLStr env st str buf bufOfs = Inr (st', buf', rc) \<and> rc \<noteq> 0
      \<longrightarrow> rc = - 1 \<and> buf' = buf \<and> (str = None \<or> buf = None \<or> \<not> pin_ok env Buf))"
proof (intro conjI)
  show "str = None \<or> buf = None \<longrightarrow>
      (\<exists>st'. compoundCpyVLStr env st str buf bufOfs = Inr (st', buf, - 1))"
    by (auto simp: compoundCpyVLStr_def split: option.splits)
next
  show "\<not> pin_ok env Buf \<longrightarrow>
      (\<exists>st'. compoundCpyVLStr env st str buf bufOfs = Inr (st', buf, - 1)) \<or>
      (compoundCpyVLStr env st str buf bufOfs = Inl BadPointer \<and> calloc_result env = 0)"
  proof
    assume np: "\<not> pin_ok env Buf"
    show "(\<exists>st'. compoundCpyVLStr env st str buf bufOfs = Inr (st', buf, - 1)) \<or>
      (compoundCpyVLStr env st str buf bufOfs = Inl BadPointer \<and> calloc_result env = 0)"
    proof (cases str)
      case None
      then show ?thesis by (simp add: compoundCpyVLStr_def)
    next
      case (Some s)
      note s = this
      show ?thesis
      proof (cases buf)
        case None
        then show ?thesis by (simp add: compoundCpyVLStr_def s)
      next
        case (Some b)
        show ?thesis
        proof (cases "calloc_result env \<noteq> 0 \<or> s = [] \<or> \<not> list_all one_byte s")
          case True
          from GetStringUTFRegion_whole [OF this, of st] obtain st2 where
            "GetStringUTFRegion s 0 (GetStringUTFLength s) (calloc_result env)
               (snd (calloc env (GetStringUTFLength s) st)) = Inr st2" ..
          then show ?thesis
            using np by (simp add: s Some compoundCpyVLStr_Some)
        next
          case False
          then have "calloc_result env = 0" "s \<noteq> []" "list_all one_byte s" by simp_all
          from GetStringUTFRegion_null [OF this, of st] this(1) show ?thesis
            by (simp add: s Some compoundCpyVLStr_Some)
        qed
      qed
    qed
  qed
next
  show "\<forall>st' buf' rc. compoundCpyVLStr env st str buf bufOfs = Inr (st', buf', rc) \<and> rc \<noteq> 0
      \<longrightarrow> rc = - 1 \<and> buf' = buf \<and> (str = None \<or> buf = None \<or> \<not> pin_ok env Buf)"
  proof (cases "str = None \<or> buf = None")
    case True
    then show ?thesis by (auto simp: compoundCpyVLStr_absent)
  next
    case False
    then obtain s b where "str = Some s" "buf = Some b" by auto
    then show ?thesis
      by (auto simp: compoundCpyVLStr_Some split: sum.splits if_splits)
  qed
qed

text \<open>The theorem with an absent text, and with a buffer that cannot be pinned.\<close>

theorem encode_failure_leaves_buffer_witness:
  "(\<exists>st'. compoundCpyVLStr (env_at 0x1000) fresh_state None (Some zeros8) 0
           = Inr (st', Some zeros8, - 1)) \<and>
   \<not> pin_ok (env_unpinned 0x1000) Buf \<and>
   (\<exists>st'. compoundCpyVLStr (env_unpinned 0x1000) fresh_state (Some hello) (Some zeros8) 0
           = Inr (st', Some zeros8, - 1))"
proof -
  have np: "\<not> pin_ok (env_unpinned 0x1000) Buf"
    by (simp add: env_unpinned_def no_pin_def)
  have nz: "calloc_result (env_unpinned 0x1000) \<noteq> 0"
    by (simp add: env_unpinned_def)
  from encode_failure_leaves_buffer [where str = None and buf = "Some zeros8"
      and env = "env_at 0x1000" and st = fresh_state and bufOfs = 0]
  have a: "\<exists>st'. compoundCpyVLStr (env_at 0x1000) fresh_state None (Some zeros8) 0
           = Inr (st', Some zeros8, - 1)"
    by simp
  from encode_failure_leaves_buffer [where str = "Some hello" and buf = "Some zeros8"
      and env = "env_unpinned 0x1000" and st = fresh_state and bufOfs = 0] np nz
  have b: "\<exists>st'. compoundCpyVLStr (env_unpinned 0x1000) fresh_state (Some hello) (Some zeros8) 0
           = Inr (st', Some zeros8, - 1)"
    by simp
  from a np b show ?thesis by simp
qed

subsection \<open>C7: pins are released\<close>

text \<open>
  Claim C7: every operation that pins an array of its caller releases the pin on every
  exit path, the early returns included: after any call of encode, decode or release-all
  has returned, with success or with failure, no array pinned by the call is still pinned.
\<close>

theorem pins_released:
  "(compoundCpyVLStr env st str buf bufOfs = Inr (st1, b1, rc1) \<longrightarrow> pinned st1 = pinned st) \<and>
   (createVLStrFromCompound env st buf offset = Inr (st2, s2) \<longrightarrow> pinned st2 = pinned st) \<and>
   (freeCompoundVLStr env st buf recordSize vlIndices = Some (Inr (st3, rc3))
      \<longrightarrow> pinned st3 = pinned st)"
proof (intro conjI impI)
  assume "compoundCpyVLStr env st str buf bufOfs = Inr (st1, b1, rc1)"
  then show "pinned st1 = pinned st"
    by (auto simp: compoundCpyVLStr_def Let_def GetPrimitiveArrayCritical_def calloc_def
        split: option.splits sum.splits prod.splits if_splits bool.splits
        dest!: GetStringUTFRegion_pinned)
next
  assume "createVLStrFromCompound env st buf offset = Inr (st2, s2)"
  then show "pinned st2 = pinned st"
    by (auto simp: createVLStrFromCompound_def GetPrimitiveArrayCritical_def
        split: option.splits sum.splits prod.splits if_splits bool.splits
        dest!: NewStringUTF_pinned)
next
  assume "freeCompoundVLStr env st buf recordSize vlIndices = Some (Inr (st3, rc3))"
  then show "pinned st3 = pinned st"
    by (auto simp: freeCompoundVLStr_def GetPrimitiveArrayCritical_def
        split: option.splits sum.splits prod.splits if_splits bool.splits
        dest!: free_records_pinned)
qed

text \<open>The theorem at one returning call of each entry point.\<close>

theorem pins_released_witness:
  "compoundCpyVLStr (env_at 0x1000) fresh_state (Some hello) (Some zeros8) 0
     = Inr (hello_encoded, Some hello_slot, 0) \<and>
   pinned hello_encoded = pinned fresh_state \<and>
   createVLStrFromCompound (env_at 0x1000) hello_encoded (Some hello_slot) 0
     = Inr (hello_decoded, Some []) \<and>
   pinned hello_decoded = pinned hello_encoded \<and>
   freeCompoundVLStr (env_at 0) three_blocks (Some three_buf) 8 (Some [0])
     = Some (Inr (three_released, 0)) \<and>
   pinned three_released = pinned three_blocks"
  using encode_hello decode_hello release_three
    pins_released [where env = "env_at 0x1000" and st = fresh_state and str = "Some hello"
      and buf = "Some zeros8" and bufOfs = 0 and ?st1.0 = hello_encoded
      and ?b1.0 = "Some hello_slot" and ?rc1.0 = 0]
    pins_released [where env = "env_at 0x1000" and st = hello_encoded
      and buf = "Some hello_slot" and offset = 0 and ?st2.0 = hello_decoded and ?s2.0 = "Some []"]
    pins_released [where env = "env_at 0" and st = three_blocks and buf = "Some three_buf"
      and recordSize = 8 and vlIndices = "Some [0]" and ?st3.0 = three_released and ?rc3.0 = 0]
  by simp

subsection \<open>C8: termination of release-all\<close>

text \<open>
  Claim C8: when \<open>recordSize\<close> is positive, release-all terminates on every buffer and
  every offset set: its loop over the records advances by \<open>recordSize\<close> in each
  iteration and is over after a number of iterations bounded by the length of the buffer.

  The call has a result, and the loop is over within the length of the buffer divided by
  \<open>recordSize\<close>, rounded up, iterations, which is at most the length of the buffer.
\<close>

theorem freeCompoundVLStr_terminates:
  assumes "0 < recordSize"
  shows "(\<exists>r. freeCompoundVLStr env st buf recordSize vlIndices = Some r) \<and>
         (\<exists>r. free_records b recordSize idxP 0 st = Some r \<and>
              free_records_bounded ((length b + nat recordSize - 1) div nat recordSize)
                b recordSize idxP 0 st = Some r) \<and>
         (length b + nat recordSize - 1) div nat recordSize \<le> length b"
proof (intro conjI)
  have loop: "\<exists>r. free_records b' recordSize idxP' 0 st' = Some r \<and>
              free_records_bounded ((length b' + nat recordSize - 1) div nat recordSize)
                b' recordSize idxP' 0 st' = Some r" for b' idxP' st'
    using assms record_count_covers [OF assms, of b']
    by (intro free_records_bounded_eq) simp_all
  show "\<exists>r. free_records b recordSize idxP 0 st = Some r \<and>
              free_records_bounded ((length b + nat recordSize - 1) div nat recordSize)
                b recordSize idxP 0 st = Some r"
    by (rule loop)
  show "(length b + nat recordSize - 1) div nat recordSize \<le> length b"
    using assms by (intro nat_ceil_le) simp
  show "\<exists>r. freeCompoundVLStr env st buf recordSize vlIndices = Some r"
  proof (cases buf)
    case None
    then show ?thesis by (simp add: freeCompoundVLStr_def)
  next
    case (Some b')
    note b' = this
    show ?thesis
    proof (cases vlIndices)
      case None
      then show ?thesis by (simp add: freeCompoundVLStr_def b')
    next
      case (Some idxP')
      show ?thesis
      proof (cases "pin_ok env VlIndices \<and> pin_ok env Buf")
        case False
        then show ?thesis
          by (auto simp: freeCompoundVLStr_def b' Some GetPrimitiveArrayCritical_def)
      next
        case True
        from loop obtain r where
          "free_records b' recordSize idxP' 0
             (log_event (GetCritical Buf True)
               ((log_event (GetCritical VlIndices True) (st\<lparr>pinned := VlIndices # pinned st\<rparr>))
                  \<lparr>pinned := Buf # VlIndices # pinned st\<rparr>)) = Some r"
          by blast
        with True show ?thesis
          by (cases r) (simp_all add: freeCompoundVLStr_def b' Some GetPrimitiveArrayCritical_def)
      qed
    qed
  qed
qed

text \<open>The theorem at \<open>three_buf\<close>: three iterations.\<close>

theorem freeCompoundVLStr_terminates_witness:
  "(0::int) < 8 \<and>
   (\<exists>r. freeCompoundVLStr (env_at 0) three_blocks (Some three_buf) 8 (Some [0]) = Some r) \<and>
   (\<exists>r. free_records three_buf 8 [0] 0 three_blocks = Some r \<and>
        free_records_bounded 3 three_buf 8 [0] 0 three_blocks = Some r)"
  using freeCompoundVLStr_terminates [where recordSize = 8 and env = "env_at 0"
      and st = three_blocks and buf = "Some three_buf" and vlIndices = "Some [0]"
      and b = three_buf and idxP = "[0]"]
  by (simp add: three_buf_def)

subsection \<open>C9: the bytes around the slot\<close>

text \<open>
  Claim C9: a successful encode at a slot offset changes no byte of the buffer outside
  the window of pointer width that starts at the offset; only the slot written has new
  content.
\<close>

theorem encode_frame:
  assumes "compoundCpyVLStr env st str (Some b) bufOfs = Inr (st', buf', 0)"
  shows "\<exists>b'. buf' = Some b' \<and> length b' = length b \<and> slot_ok b bufOfs \<and>
           (\<forall>i<length b. int i < bufOfs \<or> bufOfs + int getPointerSize \<le> int i
               \<longrightarrow> b' ! i = b ! i) \<and>
           load_ptr b' bufOfs = Inr (calloc_result env)"
proof -
  from assms obtain s where s: "str = Some s"
    by (cases str) (auto simp: compoundCpyVLStr_absent)
  from assms obtain b' where b': "buf' = Some b'"
    and st: "store_ptr b bufOfs (calloc_result env) = Inr b'"
    by (auto simp: s compoundCpyVLStr_Some split: sum.splits if_splits)
  let ?ys = "ptr_bytes (calloc_result env)"
  from st have ok: "slot_ok b bufOfs"
    and eq: "b' = take (nat bufOfs) b @ ?ys @ drop (nat bufOfs + length ?ys) b"
    by (auto simp: store_ptr_def length_ptr_bytes split: if_splits)
  from ok have n: "0 \<le> bufOfs" "nat bufOfs + length ?ys \<le> length b"
    by (simp_all add: slot_ok_def length_ptr_bytes)
  have len: "length b' = length b"
    using st by (rule store_ptr_load)
  have "b' ! i = b ! i"
    if i: "i < length b" "int i < bufOfs \<or> bufOfs + int getPointerSize \<le> int i" for i
  proof -
    have "i < nat bufOfs \<or> nat bufOfs + length ?ys \<le> i"
      using i(2) n(1) by (auto simp: length_ptr_bytes)
    with n(2) i(1) show ?thesis
      unfolding eq by (rule nth_splice)
  qed
  moreover have "load_ptr b' bufOfs = Inr (calloc_result env)"
    using st by (rule store_ptr_load)
  ultimately show ?thesis using b' len ok by blast
qed

text \<open>The theorem at the encode of \<open>hi\<close> into the second record of \<open>three_buf\<close>.\<close>

theorem encode_frame_witness:
  "compoundCpyVLStr (env_at 0x4000) three_blocks (Some hi) (Some three_buf) 8
     = Inr (hi_encoded, Some hi_buf, 0) \<and>
   length hi_buf = length three_buf \<and>
   hi_buf ! 0 = three_buf ! 0 \<and> hi_buf ! 7 = three_buf ! 7 \<and>
   hi_buf ! 16 = three_buf ! 16 \<and> hi_buf ! 23 = three_buf ! 23 \<and>
   load_ptr hi_buf 8 = Inr (calloc_result (env_at 0x4000))"
proof -
  from encode_frame [OF encode_hi]
  have len: "length hi_buf = length three_buf"
    and frame: "\<forall>i<length three_buf. int i < 8 \<or> 8 + int getPointerSize \<le> int i
                  \<longrightarrow> hi_buf ! i = three_buf ! i"
    and slot: "load_ptr hi_buf 8 = Inr (calloc_result (env_at 0x4000))"
    by simp_all
  have n: "length three_buf = 24"
    by (simp add: three_buf_def)
  from frame have "hi_buf ! 0 = three_buf ! 0" "hi_buf ! 7 = three_buf ! 7"
    "hi_buf ! 16 = three_buf ! 16" "hi_buf ! 23 = three_buf ! 23"
    by (simp_all add: n getPointerSize_def)
  with encode_hi len slot show ?thesis by simp
qed

subsection \<open>C10: the unchecked allocation\<close>

text \<open>
  Claim C10, as amended: the code never checks what \<^verbatim>\<open>calloc\<close> returns. When it returns
  the null address, the text and the buffer are not absent, the slot lies inside the
  buffer and the pin succeeds, and the copy writes nothing (the text is empty, or it has
  a code unit outside 1..0x7F, for which \<^verbatim>\<open>GetStringUTFRegion\<close> throws), encode stores
  the null address into the slot and returns 0.
\<close>

theorem encode_unchecked_allocation:
  assumes "calloc_result env = 0" "pin_ok env Buf" "slot_ok b bufOfs" "s = [] \<or> \<not> list_all one_byte s"
  shows "\<exists>st' b'. compoundCpyVLStr env st (Some s) (Some b) bufOfs = Inr (st', Some b', 0) \<and>
           load_ptr b' bufOfs = Inr 0"
proof -
  from assms(4) have "calloc_result env \<noteq> 0 \<or> s = [] \<or> \<not> list_all one_byte s" by blast
  from GetStringUTFRegion_whole [OF this, of st] obtain st2 where r:
    "GetStringUTFRegion s 0 (GetStringUTFLength s) (calloc_result env)
       (snd (calloc env (GetStringUTFLength s) st)) = Inr st2" ..
  from assms(3) obtain b' where st: "store_ptr b bufOfs (calloc_result env) = Inr b'"
    by (simp add: store_ptr_def)
  then have "load_ptr b' bufOfs = Inr 0"
    using assms(1) by (simp add: store_ptr_load)
  then show ?thesis
    using assms(2) r st by (simp add: compoundCpyVLStr_Some)
qed

text \<open>The theorem at \<open>hello\<close>, with a failing \<^verbatim>\<open>calloc\<close>.\<close>

theorem encode_unchecked_allocation_witness:
  "calloc_result (env_at 0) = 0 \<and> pin_ok (env_at 0) Buf \<and> slot_ok zeros8 0 \<and>
   \<not> list_all one_byte hello \<and>
   (\<exists>st' b'. compoundCpyVLStr (env_at 0) fresh_state (Some hello) (Some zeros8) 0
              = Inr (st', Some b', 0) \<and> load_ptr b' 0 = Inr 0)"
proof -
  have h: "calloc_result (env_at 0) = 0" "pin_ok (env_at 0) Buf" "slot_ok zeros8 0"
    "hello = [] \<or> \<not> list_all one_byte hello"
    by (simp_all add: env_at_def every_pin_def slot_ok_def zeros8_def getPointerSize_def
        hello_def one_byte_def)
  from encode_unchecked_allocation [OF h, of fresh_state] h show ?thesis
    by (simp add: hello_def)
qed

text \<open>
  The claim as it was stated has encode return 0 for every text. For the text "a" the
  copy has one byte to write, and writes it through the null address: the call does not
  return.
\<close>

theorem encode_null_copy_counterexample:
  "calloc_result (env_at 0) = 0 \<and> pin_ok (env_at 0) Buf \<and> slot_ok zeros8 0 \<and>
   compoundCpyVLStr (env_at 0) fresh_state (Some [0x61]) (Some zeros8) 0 = Inl BadPointer"
  using encode_null_one_byte
  by (simp add: env_at_def every_pin_def slot_ok_def zeros8_def getPointerSize_def)

end
